theory Spec2Isabelle
  imports Complex_Main
begin

section \<open>Snowball option pricer: embedding of \<open>snowball_option\<close>\<close>

text \<open>
  The repository is one notebook cell defining
  \<^verbatim>\<open>snowball_option(S, X, T, r, q, sigma, k, p, n_simulations)\<close>.
  It computes a Black-Scholes-Merton call price, then fills two numpy arrays in a loop over
  \<^verbatim>\<open>range(n_simulations)\<close> from one normal variate per iteration, and returns a blend of the
  call price with the mean of the floored payoffs.

  Numbers. The eight market and contract arguments are Python floats, taken here as real
  numbers, and \<open>n_simulations\<close> is a Python integer. The intermediate values are IEEE
  doubles, which besides numbers can be \<open>+inf\<close>, \<open>-inf\<close> and \<open>nan\<close>: numpy returns these
  (with a warning, without raising) for a logarithm or square root outside its domain and
  for a division by zero. They are modelled by the type \<open>float64\<close> below, whose finite
  values carry a real number. Rounding, overflow, underflow and the sign of a zero are not
  modelled: arithmetic on finite values is exact and every zero is \<open>+0.0\<close>. In particular
  an argument that is 0 stands for the double \<open>+0.0\<close>; a call on \<open>-0.0\<close> is not among the
  calls of the model. In the code the zeros that are divided by are products
  \<open>sigma * sqrt(..)\<close>, which are \<open>+0.0\<close> whenever \<open>sigma \<ge> 0\<close>; the statements below that
  reach such a division assume \<open>0 \<le> sigma\<close>. The one place where the code looks at a sign
  bit, the scale of the normal variate, is modelled with the sign bit of that product.

  Two exceptions are outside the model, and the statements below about which calls raise
  and which return name the calls they are about accordingly: the Python float power
  \<^verbatim>\<open>sigma ** 2\<close> raises \<^verbatim>\<open>OverflowError\<close> when the square exceeds the largest double
  \<open>float_max\<close>, and \<^verbatim>\<open>np.zeros\<close> fails on a size that cannot be allocated.
\<close>

subsection \<open>IEEE values and the numpy operations the function uses\<close>

datatype float64 = Fin real | PInf | NInf | NaN

fun fneg :: "float64 \<Rightarrow> float64" where
  "fneg (Fin a) = Fin (- a)"
| "fneg PInf = NInf"
| "fneg NInf = PInf"
| "fneg NaN = NaN"

fun fadd :: "float64 \<Rightarrow> float64 \<Rightarrow> float64" where
  "fadd (Fin a) (Fin b) = Fin (a + b)"
| "fadd NaN y = NaN"
| "fadd x NaN = NaN"
| "fadd PInf NInf = NaN"
| "fadd NInf PInf = NaN"
| "fadd PInf y = PInf"
| "fadd x PInf = PInf"
| "fadd NInf y = NInf"
| "fadd x NInf = NInf"

definition fsub :: "float64 \<Rightarrow> float64 \<Rightarrow> float64" where
  "fsub x y = fadd x (fneg y)"

fun fmul :: "float64 \<Rightarrow> float64 \<Rightarrow> float64" where
  "fmul (Fin a) (Fin b) = Fin (a * b)"
| "fmul NaN y = NaN"
| "fmul x NaN = NaN"
| "fmul (Fin a) PInf = (if a = 0 then NaN else if 0 < a then PInf else NInf)"
| "fmul (Fin a) NInf = (if a = 0 then NaN else if 0 < a then NInf else PInf)"
| "fmul PInf (Fin b) = (if b = 0 then NaN else if 0 < b then PInf else NInf)"
| "fmul NInf (Fin b) = (if b = 0 then NaN else if 0 < b then NInf else PInf)"
| "fmul PInf PInf = PInf"
| "fmul NInf NInf = PInf"
| "fmul PInf NInf = NInf"
| "fmul NInf PInf = NInf"

text \<open>Division of doubles as numpy does it: a zero divisor gives an infinity or \<open>nan\<close>.\<close>

fun fdiv :: "float64 \<Rightarrow> float64 \<Rightarrow> float64" where
  "fdiv (Fin a) (Fin b) =
     (if b = 0 then (if a = 0 then NaN else if 0 < a then PInf else NInf) else Fin (a / b))"
| "fdiv NaN y = NaN"
| "fdiv x NaN = NaN"
| "fdiv (Fin a) PInf = Fin 0"
| "fdiv (Fin a) NInf = Fin 0"
| "fdiv PInf (Fin b) = (if 0 \<le> b then PInf else NInf)"
| "fdiv NInf (Fin b) = (if 0 \<le> b then NInf else PInf)"
| "fdiv PInf PInf = NaN"
| "fdiv PInf NInf = NaN"
| "fdiv NInf PInf = NaN"
| "fdiv NInf NInf = NaN"

text \<open>\<^verbatim>\<open>np.sqrt\<close>, \<^verbatim>\<open>np.log\<close> and \<^verbatim>\<open>np.exp\<close>.\<close>

fun fsqrt :: "float64 \<Rightarrow> float64" where
  "fsqrt (Fin a) = (if a < 0 then NaN else Fin (sqrt a))"
| "fsqrt PInf = PInf"
| "fsqrt NInf = NaN"
| "fsqrt NaN = NaN"

fun flog :: "float64 \<Rightarrow> float64" where
  "flog (Fin a) = (if a < 0 then NaN else if a = 0 then NInf else Fin (ln a))"
| "flog PInf = PInf"
| "flog NInf = NaN"
| "flog NaN = NaN"

fun fexp :: "float64 \<Rightarrow> float64" where
  "fexp (Fin a) = Fin (exp a)"
| "fexp PInf = PInf"
| "fexp NInf = Fin 0"
| "fexp NaN = NaN"

text \<open>\<^verbatim>\<open>np.maximum\<close> propagates \<open>nan\<close>.\<close>

fun fmaximum :: "float64 \<Rightarrow> float64 \<Rightarrow> float64" where
  "fmaximum (Fin a) (Fin b) = Fin (max a b)"
| "fmaximum NaN y = NaN"
| "fmaximum x NaN = NaN"
| "fmaximum PInf y = PInf"
| "fmaximum x PInf = PInf"
| "fmaximum NInf y = y"
| "fmaximum x NInf = x"

fun fminimum :: "float64 \<Rightarrow> float64 \<Rightarrow> float64" where
  "fminimum (Fin a) (Fin b) = Fin (min a b)"
| "fminimum NaN y = NaN"
| "fminimum x NaN = NaN"
| "fminimum NInf y = NInf"
| "fminimum x NInf = NInf"
| "fminimum PInf y = y"
| "fminimum x PInf = x"

text \<open>The comparison \<open>x <= y\<close> of doubles: false as soon as one side is \<open>nan\<close>.\<close>

fun fle :: "float64 \<Rightarrow> float64 \<Rightarrow> bool" where
  "fle (Fin a) (Fin b) = (a \<le> b)"
| "fle NaN y = False"
| "fle x NaN = False"
| "fle NInf y = True"
| "fle x PInf = True"
| "fle PInf y = False"
| "fle x NInf = False"

fun isfinite :: "float64 \<Rightarrow> bool" where
  "isfinite (Fin a) = True"
| "isfinite PInf = False"
| "isfinite NInf = False"
| "isfinite NaN = False"

text \<open>\<^verbatim>\<open>np.mean\<close>: the sum of the entries over their number; \<open>nan\<close> on an empty array.\<close>

primrec fsum :: "float64 list \<Rightarrow> float64" where
  "fsum [] = Fin 0"
| "fsum (x # xs) = fadd x (fsum xs)"

definition fmean :: "float64 list \<Rightarrow> float64" where
  "fmean xs = fdiv (fsum xs) (Fin (real (length xs)))"

primrec fmax_list :: "float64 list \<Rightarrow> float64" where
  "fmax_list [] = NInf"
| "fmax_list (x # xs) = fmaximum x (fmax_list xs)"

primrec fmin_list :: "float64 list \<Rightarrow> float64" where
  "fmin_list [] = PInf"
| "fmin_list (x # xs) = fminimum x (fmin_list xs)"

text \<open>
  \<^verbatim>\<open>np.signbit\<close>. A zero of this model is \<open>+0.0\<close>, whose sign bit is clear. The sign bit
  of a product of doubles is the exclusive or of the sign bits of its factors, also when
  the product is a zero: \<open>-1.0 * 0.0\<close> is \<open>-0.0\<close>. Since a zero here does not carry its
  sign, the sign bit of a product is computed from its factors.
\<close>

fun signbit :: "float64 \<Rightarrow> bool" where
  "signbit (Fin a) = (a < 0)"
| "signbit PInf = False"
| "signbit NInf = True"
| "signbit NaN = False"

definition product_signbit :: "float64 \<Rightarrow> float64 \<Rightarrow> bool" where
  "product_signbit x y \<longleftrightarrow> signbit x \<noteq> signbit y"

text \<open>The largest double, \<open>(2 - 2\<^sup>-\<^sup>5\<^sup>2) * 2\<^sup>1\<^sup>0\<^sup>2\<^sup>3\<close>.\<close>

definition float_max :: real where
  "float_max = 2 ^ 1024 - 2 ^ 971"

subsection \<open>The standard normal distribution function\<close>

text \<open>
  \<^verbatim>\<open>scipy.stats.norm.cdf\<close> is the standard normal cumulative distribution function: the
  distribution function whose density is proportional to \<open>exp (- x\<^sup>2 / 2)\<close>. It is
  defined here, without integrals, from the power series
  \<open>\<Sum>m. (- 1 / 2) ^ m * x ^ (2 * m + 1) / (m! * (2 * m + 1))\<close> of
  \<open>\<integral>\<^sub>0\<^sup>x exp (- t\<^sup>2 / 2) dt\<close>, normalised by its supremum, the half mass
  \<open>\<integral>\<^sub>0\<^sup>\<infinity> exp (- t\<^sup>2 / 2) dt\<close>. The value of that constant, \<open>sqrt (pi / 2)\<close>, is
  not needed and not computed. The lemmas of the next section show what fixes \<open>Phi\<close>:
  it has the derivative \<open>exp (- x\<^sup>2 / 2) / (2 * gauss_half)\<close> everywhere, it comes
  arbitrarily close to 0 and to 1, and it is increasing.
\<close>

definition gauss_coeff :: "nat \<Rightarrow> real" where
  "gauss_coeff n =
     (if even n then 0 else (- 1 / 2) ^ ((n - 1) div 2) / (fact ((n - 1) div 2) * real n))"

definition gauss_area :: "real \<Rightarrow> real" where
  "gauss_area x = (\<Sum>n. gauss_coeff n * x ^ n)"

definition gauss_half :: real where
  "gauss_half = (SUP x. gauss_area x)"

definition Phi :: "real \<Rightarrow> real" where
  "Phi x = (gauss_half + gauss_area x) / (2 * gauss_half)"

fun norm_cdf :: "float64 \<Rightarrow> float64" where
  "norm_cdf (Fin a) = Fin (Phi a)"
| "norm_cdf PInf = Fin 1"
| "norm_cdf NInf = Fin 0"
| "norm_cdf NaN = NaN"

subsection \<open>The function\<close>

text \<open>
  The exceptions the body can raise: \<^verbatim>\<open>S / X\<close> is a division of Python floats, which raises
  \<^verbatim>\<open>ZeroDivisionError\<close> on \<open>X = 0\<close>; \<^verbatim>\<open>np.zeros(n)\<close> raises \<^verbatim>\<open>ValueError\<close> on a negative
  size; \<^verbatim>\<open>np.random.normal\<close> raises \<^verbatim>\<open>ValueError\<close> on a scale whose sign bit is set.
\<close>

datatype error = ZeroDivisionError | ValueError

text \<open>
  Lines 54 to 56, after \<^verbatim>\<open>S / X\<close> has been evaluated:
  \<^verbatim>\<open>
  d1 = (np.log(S / X) + (r - q + 0.5 * sigma ** 2) * T) / (sigma * np.sqrt(T))
  d2 = d1 - sigma * np.sqrt(T)
  call_price = S * np.exp(-q * T) * sp.norm.cdf(d1) - X * np.exp(-r * T) * sp.norm.cdf(d2)
  \<close>
\<close>

definition call_price :: "real \<Rightarrow> real \<Rightarrow> real \<Rightarrow> real \<Rightarrow> real \<Rightarrow> real \<Rightarrow> float64" where
  "call_price S X T r q sigma =
     (let d1 = fdiv (fadd (flog (Fin (S / X))) (Fin ((r - q + 0.5 * sigma\<^sup>2) * T)))
                 (fmul (Fin sigma) (fsqrt (Fin T)));
          d2 = fsub d1 (fmul (Fin sigma) (fsqrt (Fin T)))
      in fsub (fmul (fmul (Fin S) (fexp (Fin (- q * T)))) (norm_cdf d1))
              (fmul (fmul (Fin X) (fexp (Fin (- r * T)))) (norm_cdf d2)))"

text \<open>
  \<^verbatim>\<open>np.random.normal(loc, scale)\<close> checks the scale and returns \<open>loc + scale * g\<close> for the
  next standard normal variate \<open>g\<close> of the generator. The check is on the sign bit, not on
  the value: numpy raises \<^verbatim>\<open>ValueError("scale < 0")\<close> when the scale is not \<open>nan\<close> and
  \<^verbatim>\<open>signbit(scale)\<close> holds, so that a scale of \<open>-0.0\<close> is refused. The sign bit of the
  scale is passed beside its value, as \<open>negative\<close>. The generator is the only state the
  function shares with its caller; it is modelled by the sequence \<open>z\<close> of the standard
  normal variates it hands out, \<open>z i\<close> to iteration \<open>i\<close> (the loop draws exactly once per
  iteration).
\<close>

definition random_normal :: "float64 \<Rightarrow> float64 \<Rightarrow> bool \<Rightarrow> real \<Rightarrow> error + float64" where
  "random_normal loc scale negative g =
     (case scale of
        NaN \<Rightarrow> Inr (fadd loc (fmul scale (Fin g)))
      | _ \<Rightarrow> if negative then Inl ValueError else Inr (fadd loc (fmul scale (Fin g))))"

text \<open>The expression \<^verbatim>\<open>(T - i * T / n_simulations)\<close>, which the loop body writes five times.\<close>

definition tau :: "real \<Rightarrow> int \<Rightarrow> nat \<Rightarrow> real" where
  "tau T n i = T - real i * T / real_of_int n"

text \<open>
  Lines 63 to 68, one iteration up to the two values it stores:
  \<^verbatim>\<open>
  r_i = np.random.normal((r - 0.5 * sigma ** 2) * T / 365, sigma * np.sqrt(T / 365))
  S_i = S * (1 + k * r_i)
  d1_i = (np.log(S_i / X) + (r - q + 0.5 * sigma ** 2) * (T - i * T / n_simulations))
         / (sigma * np.sqrt((T - i * T / n_simulations)))
  d2_i = d1_i - sigma * np.sqrt((T - i * T / n_simulations))
  value_i = S_i * np.exp(-q * (T - i * T / n_simulations)) * sp.norm.cdf(d1_i)
            - X * np.exp(-r * (T - i * T / n_simulations)) * sp.norm.cdf(d2_i)
  \<close>
\<close>

definition draw :: "real \<Rightarrow> real \<Rightarrow> real \<Rightarrow> real \<Rightarrow> real \<Rightarrow> real \<Rightarrow> real \<Rightarrow> int \<Rightarrow> (nat \<Rightarrow> real)
    \<Rightarrow> nat \<Rightarrow> error + float64 \<times> float64" where
  "draw S X T r q sigma k n z i =
     (case random_normal (Fin ((r - 0.5 * sigma\<^sup>2) * T / 365))
             (fmul (Fin sigma) (fsqrt (Fin (T / 365))))
             (product_signbit (Fin sigma) (fsqrt (Fin (T / 365)))) (z i) of
        Inl e \<Rightarrow> Inl e
      | Inr r_i \<Rightarrow>
          let S_i = fmul (Fin S) (fadd (Fin 1) (fmul (Fin k) r_i));
              d1_i = fdiv (fadd (flog (fdiv S_i (Fin X)))
                             (Fin ((r - q + 0.5 * sigma\<^sup>2) * tau T n i)))
                       (fmul (Fin sigma) (fsqrt (Fin (tau T n i))));
              d2_i = fsub d1_i (fmul (Fin sigma) (fsqrt (Fin (tau T n i))));
              value_i = fsub (fmul (fmul S_i (fexp (Fin (- q * tau T n i)))) (norm_cdf d1_i))
                          (fmul (fmul (Fin X) (fexp (Fin (- r * tau T n i)))) (norm_cdf d2_i))
          in Inr (S_i, value_i))"

text \<open>The two arrays, and lines 70 and 71 storing into them at index \<open>i\<close>.\<close>

record arrays =
  prices :: "float64 list"
  "values" :: "float64 list"

definition loop_body :: "real \<Rightarrow> real \<Rightarrow> real \<Rightarrow> real \<Rightarrow> real \<Rightarrow> real \<Rightarrow> real \<Rightarrow> int
    \<Rightarrow> (nat \<Rightarrow> real) \<Rightarrow> nat \<Rightarrow> arrays \<Rightarrow> error + arrays" where
  "loop_body S X T r q sigma k n z i a =
     (case draw S X T r q sigma k n z i of
        Inl e \<Rightarrow> Inl e
      | Inr (S_i, value_i) \<Rightarrow>
          Inr (a\<lparr>prices := (prices a)[i := S_i], values := (values a)[i := value_i]\<rparr>))"

text \<open>\<^verbatim>\<open>for i in range(..)\<close>: the body at each index in turn, stopping at the first exception.\<close>

fun for_range :: "(nat \<Rightarrow> arrays \<Rightarrow> error + arrays) \<Rightarrow> nat list \<Rightarrow> arrays \<Rightarrow> error + arrays" where
  "for_range body [] a = Inr a"
| "for_range body (i # is) a =
     (case body i a of Inl e \<Rightarrow> Inl e | Inr a' \<Rightarrow> for_range body is a')"

text \<open>Lines 59 to 71: the arrays of zeros and the loop (for \<open>0 \<le> n\<close>).\<close>

definition simulate :: "real \<Rightarrow> real \<Rightarrow> real \<Rightarrow> real \<Rightarrow> real \<Rightarrow> real \<Rightarrow> real \<Rightarrow> int
    \<Rightarrow> (nat \<Rightarrow> real) \<Rightarrow> error + arrays" where
  "simulate S X T r q sigma k n z =
     for_range (loop_body S X T r q sigma k n z) [0 ..< nat n]
       \<lparr>prices = replicate (nat n) (Fin 0), values = replicate (nat n) (Fin 0)\<rparr>"

text \<open>
  Line 74,
  \<^verbatim>\<open>option_price = (1 - p) * call_price + p * np.mean(np.maximum(k * prices + (1 - k) * values, 0))\<close>,
  in its three layers: the array of floored payoffs, its mean, the blend.
\<close>

definition payoff :: "real \<Rightarrow> float64 \<Rightarrow> float64 \<Rightarrow> float64" where
  "payoff k price val = fmaximum (fadd (fmul (Fin k) price) (fmul (Fin (1 - k)) val)) (Fin 0)"

definition payoffs :: "real \<Rightarrow> arrays \<Rightarrow> float64 list" where
  "payoffs k a = map (\<lambda>(price, val). payoff k price val) (zip (prices a) (values a))"

definition blend :: "real \<Rightarrow> float64 \<Rightarrow> float64 \<Rightarrow> float64" where
  "blend p c m = fadd (fmul (Fin (1 - p)) c) (fmul (Fin p) m)"

definition snowball_option :: "real \<Rightarrow> real \<Rightarrow> real \<Rightarrow> real \<Rightarrow> real \<Rightarrow> real \<Rightarrow> real \<Rightarrow> real \<Rightarrow> int
    \<Rightarrow> (nat \<Rightarrow> real) \<Rightarrow> error + float64" where
  "snowball_option S X T r q sigma k p n z =
     (if X = 0 then Inl ZeroDivisionError
      else if n < 0 then Inl ValueError
      else case simulate S X T r q sigma k n z of
             Inl e \<Rightarrow> Inl e
           | Inr a \<Rightarrow> Inr (blend p (call_price S X T r q sigma) (fmean (payoffs k a))))"

subsection \<open>The formulas of the specification\<close>

text \<open>
  The closed-form Black-Scholes-Merton call value over the reals, as the specification
  writes it: \<open>d1 = (ln (S / X) + (r - q + 0.5 \<sigma>\<^sup>2) T) / (\<sigma> \<surd>T)\<close>, \<open>d2 = d1 - \<sigma> \<surd>T\<close>,
  \<open>S e\<^sup>-\<^sup>q\<^sup>T \<Phi>(d1) - X e\<^sup>-\<^sup>r\<^sup>T \<Phi>(d2)\<close>.
\<close>

definition bsm_d1 :: "real \<Rightarrow> real \<Rightarrow> real \<Rightarrow> real \<Rightarrow> real \<Rightarrow> real \<Rightarrow> real" where
  "bsm_d1 S X T r q sigma = (ln (S / X) + (r - q + 0.5 * sigma\<^sup>2) * T) / (sigma * sqrt T)"

definition bsm_d2 :: "real \<Rightarrow> real \<Rightarrow> real \<Rightarrow> real \<Rightarrow> real \<Rightarrow> real \<Rightarrow> real" where
  "bsm_d2 S X T r q sigma = bsm_d1 S X T r q sigma - sigma * sqrt T"

definition bsm_call_value :: "real \<Rightarrow> real \<Rightarrow> real \<Rightarrow> real \<Rightarrow> real \<Rightarrow> real \<Rightarrow> real" where
  "bsm_call_value S X T r q sigma =
     S * exp (- q * T) * Phi (bsm_d1 S X T r q sigma)
       - X * exp (- r * T) * Phi (bsm_d2 S X T r q sigma)"

text \<open>
  The same formula evaluated in doubles on a spot that is itself a double, for the
  per-draw value, where the spot \<open>S_i\<close> need not be positive.
\<close>

definition bsm_formula :: "float64 \<Rightarrow> real \<Rightarrow> real \<Rightarrow> real \<Rightarrow> real \<Rightarrow> real \<Rightarrow> float64" where
  "bsm_formula Sf X T r q sigma =
     (let d1 = fdiv (fadd (flog (fdiv Sf (Fin X))) (Fin ((r - q + 0.5 * sigma\<^sup>2) * T)))
                 (Fin (sigma * sqrt T));
          d2 = fsub d1 (Fin (sigma * sqrt T))
      in fsub (fmul (fmul Sf (Fin (exp (- q * T)))) (norm_cdf d1))
              (fmul (Fin (X * exp (- r * T))) (norm_cdf d2)))"

text \<open>The variate of draw \<open>i\<close>, its mean and standard deviation, and the simulated spot.\<close>

definition draw_mean :: "real \<Rightarrow> real \<Rightarrow> real \<Rightarrow> real" where
  "draw_mean T r sigma = (r - 0.5 * sigma\<^sup>2) * T / 365"

definition draw_sd :: "real \<Rightarrow> real \<Rightarrow> real" where
  "draw_sd T sigma = sigma * sqrt (T / 365)"

definition variate :: "real \<Rightarrow> real \<Rightarrow> real \<Rightarrow> (nat \<Rightarrow> real) \<Rightarrow> nat \<Rightarrow> real" where
  "variate T r sigma z i = draw_mean T r sigma + draw_sd T sigma * z i"

definition spot :: "real \<Rightarrow> real \<Rightarrow> real \<Rightarrow> real \<Rightarrow> real \<Rightarrow> (nat \<Rightarrow> real) \<Rightarrow> nat \<Rightarrow> real" where
  "spot S T r sigma k z i = S * (1 + k * variate T r sigma z i)"

text \<open>
  A draw is usable when its simulated spot is not negative: \<open>S_i = S * (1 + k * r_i)\<close> with
  \<open>0 < S\<close>. The value and the payoff of a usable draw, over the reals: the value is the
  closed form at the simulated spot, and 0 at the spot 0 (where the logarithm is \<open>-inf\<close>
  and both distribution values are 0).
\<close>

definition draw_ok :: "real \<Rightarrow> real \<Rightarrow> real \<Rightarrow> real \<Rightarrow> (nat \<Rightarrow> real) \<Rightarrow> nat \<Rightarrow> bool" where
  "draw_ok T r sigma k z i \<longleftrightarrow> 0 \<le> 1 + k * variate T r sigma z i"

definition draw_value :: "real \<Rightarrow> real \<Rightarrow> real \<Rightarrow> real \<Rightarrow> real \<Rightarrow> real \<Rightarrow> real \<Rightarrow> int \<Rightarrow> (nat \<Rightarrow> real)
    \<Rightarrow> nat \<Rightarrow> real" where
  "draw_value S X T r q sigma k n z i =
     (if 0 < spot S T r sigma k z i
      then bsm_call_value (spot S T r sigma k z i) X (tau T n i) r q sigma else 0)"

definition draw_payoff :: "real \<Rightarrow> real \<Rightarrow> real \<Rightarrow> real \<Rightarrow> real \<Rightarrow> real \<Rightarrow> real \<Rightarrow> int \<Rightarrow> (nat \<Rightarrow> real)
    \<Rightarrow> nat \<Rightarrow> real" where
  "draw_payoff S X T r q sigma k n z i =
     max (k * spot S T r sigma k z i + (1 - k) * draw_value S X T r q sigma k n z i) 0"

section \<open>The normal distribution function\<close>

subsection \<open>The antiderivative of the Gaussian\<close>

lemma summable_gauss_area: "summable (\<lambda>n. gauss_coeff n * x ^ n)"
proof -
  let ?g = "\<lambda>m. \<bar>x\<bar> * ((x\<^sup>2 / 2) ^ m / fact m)"
  have "(\<lambda>m. (x\<^sup>2 / 2) ^ m /\<^sub>R fact m) sums exp (x\<^sup>2 / 2)"
    by (rule exp_converges)
  then have "(\<lambda>m. (x\<^sup>2 / 2) ^ m / fact m) sums exp (x\<^sup>2 / 2)"
    by (simp only: real_scaleR_def divide_inverse_commute)
  then have "?g sums (\<bar>x\<bar> * exp (x\<^sup>2 / 2))"
    by (rule sums_mult)
  then have "(\<lambda>n. if even n then 0 else ?g ((n - 1) div 2)) sums (\<bar>x\<bar> * exp (x\<^sup>2 / 2))"
    by (rule sums_if')
  then have S: "summable (\<lambda>n. if even n then 0 else ?g ((n - 1) div 2))"
    by (rule sums_summable)
  show ?thesis
  proof (rule summable_comparison_test' [OF S, of 0])
    fix n :: nat
    show "norm (gauss_coeff n * x ^ n) \<le> (if even n then 0 else ?g ((n - 1) div 2))"
    proof (cases "even n")
      case True
      then show ?thesis by (simp add: gauss_coeff_def)
    next
      case False
      then obtain m where n: "n = Suc (2 * m)"
        by (auto elim: oddE)
      have "norm (gauss_coeff n * x ^ n) = (1 / 2) ^ m / (fact m * real n) * \<bar>x\<bar> ^ n"
        using n by (simp add: gauss_coeff_def abs_mult power_abs power_divide)
      also have "\<dots> \<le> (1 / 2) ^ m / fact m * \<bar>x\<bar> ^ n"
      proof (rule mult_right_mono)
        have "(fact m :: real) * 1 \<le> fact m * real n"
          using n by (intro mult_left_mono) auto
        then show "(1 / 2) ^ m / (fact m * real n) \<le> (1 / 2) ^ m / (fact m :: real)"
          using n by (intro divide_left_mono) auto
      qed simp
      also have "\<dots> = ?g m"
      proof -
        have "\<bar>x\<bar> ^ n = \<bar>x\<bar> * (\<bar>x\<bar>\<^sup>2) ^ m"
          using n by (simp add: power_mult)
        then have "\<bar>x\<bar> ^ n = \<bar>x\<bar> * (x\<^sup>2) ^ m"
          by simp
        moreover have "(x\<^sup>2 / 2) ^ m = (x\<^sup>2) ^ m * (1 / 2) ^ m"
          by (simp add: power_divide)
        ultimately show ?thesis
          by simp
      qed
      finally show ?thesis
        using False n by simp
    qed
  qed
qed

lemma diffs_gauss_coeff:
  "diffs gauss_coeff n = (if even n then (- 1 / 2) ^ (n div 2) / fact (n div 2) else 0)"
  by (auto simp: diffs_def gauss_coeff_def simp del: of_nat_Suc)

lemma DERIV_gauss_area: "DERIV gauss_area x :> exp (- x\<^sup>2 / 2)"
proof -
  have "(\<lambda>m. (- x\<^sup>2 / 2) ^ m /\<^sub>R fact m) sums exp (- x\<^sup>2 / 2)"
    by (rule exp_converges)
  then have E: "(\<lambda>m. (- x\<^sup>2 / 2) ^ m / fact m) sums exp (- x\<^sup>2 / 2)"
    by (simp only: real_scaleR_def divide_inverse_commute)
  have Z: "(\<lambda>m::nat. 0::real) sums 0"
    by simp
  have "(\<lambda>n. if even n then (- x\<^sup>2 / 2) ^ (n div 2) / fact (n div 2) else 0)
          sums (0 + exp (- x\<^sup>2 / 2))"
    using sums_if [OF Z E] by simp
  moreover have "(\<lambda>n. if even n then (- x\<^sup>2 / 2) ^ (n div 2) / fact (n div 2) else 0)
      = (\<lambda>n. diffs gauss_coeff n * x ^ n)"
  proof
    fix n
    show "(if even n then (- x\<^sup>2 / 2) ^ (n div 2) / fact (n div 2) else 0)
      = diffs gauss_coeff n * x ^ n"
    proof (cases "even n")
      case True
      then obtain m where n: "n = 2 * m" by (auto elim: evenE)
      have "(- x\<^sup>2 / 2) ^ m = ((- 1 / 2) * x\<^sup>2) ^ m"
        by simp
      also have "\<dots> = (- 1 / 2) ^ m * x ^ (2 * m)"
        by (simp only: power_mult_distrib power_mult)
      finally show ?thesis
        using n by (simp add: diffs_gauss_coeff)
    next
      case False
      then show ?thesis by (simp add: diffs_gauss_coeff)
    qed
  qed
  ultimately have "(\<Sum>n. diffs gauss_coeff n * x ^ n) = exp (- x\<^sup>2 / 2)"
    by (simp add: sums_iff)
  moreover have "DERIV (\<lambda>x. \<Sum>n. gauss_coeff n * x ^ n) x :> (\<Sum>n. diffs gauss_coeff n * x ^ n)"
    by (rule termdiffs_strong_converges_everywhere) (rule summable_gauss_area)
  ultimately show ?thesis
    unfolding gauss_area_def [abs_def] by simp
qed


lemma gauss_area_0: "gauss_area 0 = 0"
  by (simp add: gauss_area_def gauss_coeff_def)

lemma gauss_area_minus: "gauss_area (- x) = - gauss_area x"
proof -
  have "(\<lambda>n. gauss_coeff n * (- x) ^ n) = (\<lambda>n. - (gauss_coeff n * x ^ n))"
  proof
    fix n
    show "gauss_coeff n * (- x) ^ n = - (gauss_coeff n * x ^ n)"
      by (cases "even n") (simp_all add: gauss_coeff_def)
  qed
  then show ?thesis
    by (simp add: gauss_area_def suminf_minus [OF summable_gauss_area])
qed

lemma gauss_area_strict_mono:
  assumes "x < y"
  shows "gauss_area x < gauss_area y"
proof (rule DERIV_pos_imp_increasing [OF assms])
  fix t :: real
  show "\<exists>d. DERIV gauss_area t :> d \<and> 0 < d"
    using DERIV_gauss_area [of t] by (intro exI [of _ "exp (- t\<^sup>2 / 2)"]) simp
qed

lemma gauss_area_mono: "x \<le> y \<Longrightarrow> gauss_area x \<le> gauss_area y"
  using gauss_area_strict_mono [of x y] by (cases "x = y") auto

lemma gauss_area_tail: 
  assumes "1 \<le> x"
  shows "gauss_area x \<le> gauss_area 1 + 2"
proof -
  let ?u = "\<lambda>t. gauss_area t + 2 * exp (- t / 2)"
  have "?u x \<le> ?u 1"
  proof (rule DERIV_nonpos_imp_nonincreasing [OF assms])
    fix t :: real
    assume t: "1 \<le> t"
    have D: "DERIV ?u t :> exp (- t\<^sup>2 / 2) + 2 * (exp (- t / 2) * (- 1 / 2))"
      by (rule derivative_eq_intros DERIV_gauss_area refl | simp)+
    have "t * 1 \<le> t * t"
      using t by (intro mult_left_mono) auto
    then have "- t\<^sup>2 / 2 \<le> - t / 2"
      by (simp add: power2_eq_square)
    then have "exp (- t\<^sup>2 / 2) \<le> exp (- t / 2)"
      by simp
    then have "exp (- t\<^sup>2 / 2) + 2 * (exp (- t / 2) * (- 1 / 2)) \<le> 0"
      by simp
    with D show "\<exists>d. DERIV ?u t :> d \<and> d \<le> 0"
      by blast
  qed
  moreover have "0 \<le> exp (- x / 2)" "exp (- 1 / 2) \<le> (1::real)"
    by simp_all
  ultimately show ?thesis
    by linarith
qed

lemma gauss_area_bounded: "gauss_area x \<le> gauss_area 1 + 2"
proof (cases "1 \<le> x")
  case True
  then show ?thesis by (rule gauss_area_tail)
next
  case False
  then have "gauss_area x \<le> gauss_area 1"
    by (intro gauss_area_mono) simp
  then show ?thesis by simp
qed



lemma bdd_above_gauss_area: "bdd_above (range gauss_area)"
  by (rule bdd_aboveI [of _ "gauss_area 1 + 2"]) (auto simp: gauss_area_bounded)

lemma gauss_area_le_half: "gauss_area x \<le> gauss_half"
  unfolding gauss_half_def by (rule cSUP_upper [OF UNIV_I bdd_above_gauss_area])

lemma gauss_area_ge_half: "- gauss_half \<le> gauss_area x"
  using gauss_area_le_half [of "- x"] by (simp add: gauss_area_minus)

lemma gauss_half_pos: "0 < gauss_half"
proof -
  have "gauss_area 0 < gauss_area 1"
    by (rule gauss_area_strict_mono) simp
  also have "\<dots> \<le> gauss_half"
    by (rule gauss_area_le_half)
  finally show ?thesis
    by (simp add: gauss_area_0)
qed

lemma gauss_area_near_half:
  assumes "0 < e"
  shows "\<exists>x. gauss_half - e < gauss_area x"
proof (rule ccontr)
  assume "\<not> ?thesis"
  then have "\<And>x. gauss_area x \<le> gauss_half - e"
    by (simp add: not_less)
  then have "(SUP x. gauss_area x) \<le> gauss_half - e"
    by (intro cSUP_least) auto
  with assms show False
    by (simp add: gauss_half_def)
qed



lemma Phi_nonneg: "0 \<le> Phi x"
  using gauss_area_ge_half [of x] gauss_half_pos by (simp add: Phi_def)

lemma Phi_le_1: "Phi x \<le> 1"
  using gauss_area_le_half [of x] gauss_half_pos by (simp add: Phi_def)

lemma Phi_0: "Phi 0 = 1 / 2"
  using gauss_half_pos by (simp add: Phi_def gauss_area_0)

lemma Phi_minus: "Phi (- x) = 1 - Phi x"
  using gauss_half_pos by (simp add: Phi_def gauss_area_minus field_simps)

lemma Phi_mono: "x \<le> y \<Longrightarrow> Phi x \<le> Phi y"
  using gauss_area_mono [of x y] gauss_half_pos by (simp add: Phi_def divide_right_mono)

lemma Phi_strict_mono: "x < y \<Longrightarrow> Phi x < Phi y"
  using gauss_area_strict_mono [of x y] gauss_half_pos by (simp add: Phi_def divide_strict_right_mono)

lemma DERIV_Phi: "DERIV Phi x :> exp (- x\<^sup>2 / 2) / (2 * gauss_half)"
proof -
  have "DERIV (\<lambda>x. gauss_half + gauss_area x) x :> 0 + exp (- x\<^sup>2 / 2)"
    by (intro DERIV_add DERIV_const DERIV_gauss_area)
  then have "DERIV (\<lambda>x. (gauss_half + gauss_area x) / (2 * gauss_half)) x
      :> (0 + exp (- x\<^sup>2 / 2)) / (2 * gauss_half)"
    by (rule DERIV_cdivide)
  then show ?thesis
    by (simp add: Phi_def [abs_def])
qed

lemma Phi_small:
  assumes "0 < e"
  shows "\<exists>x. Phi x < e"
proof -
  have "0 < 2 * gauss_half * e"
    using assms gauss_half_pos by simp
  then obtain y where y: "gauss_half - 2 * gauss_half * e < gauss_area y"
    using gauss_area_near_half by blast
  have "Phi (- y) = (gauss_half - gauss_area y) / (2 * gauss_half)"
    by (simp add: Phi_def gauss_area_minus)
  also have "\<dots> < e"
    using y gauss_half_pos by (simp add: field_simps)
  finally show ?thesis
    by blast
qed

lemma Phi_large:
  assumes "0 < e"
  shows "\<exists>x. 1 - e < Phi x"
proof -
  obtain y where "Phi y < e"
    using Phi_small [OF assms] by blast
  then have "1 - e < Phi (- y)"
    by (simp add: Phi_minus)
  then show ?thesis
    by blast
qed


lemma Phi_shift_deriv:
  "DERIV (\<lambda>t. exp (t * v - v\<^sup>2 / 2) * Phi t - Phi (t - v)) t
     :> v * exp (t * v - v\<^sup>2 / 2) * Phi t"
proof -
  let ?c = "2 * gauss_half"
  have E: "exp (t * v - v\<^sup>2 / 2) * exp (- t\<^sup>2 / 2) = exp (- (t - v)\<^sup>2 / 2)"
    by (simp add: exp_add [symmetric] power2_eq_square algebra_simps)
  have B: "exp (t * v - v\<^sup>2 / 2) * (exp (- t\<^sup>2 / 2) / ?c)
      = exp (- (t - v)\<^sup>2 / 2) / ?c"
    by (simp only: times_divide_eq_right E)
  have "DERIV (\<lambda>t. exp (t * v - v\<^sup>2 / 2) * Phi t - Phi (t - v)) t
     :> (exp (t * v - v\<^sup>2 / 2) * v) * Phi t
        + exp (t * v - v\<^sup>2 / 2) * (exp (- t\<^sup>2 / 2) / ?c)
        - exp (- (t - v)\<^sup>2 / 2) / ?c * 1"
    by (rule derivative_eq_intros DERIV_Phi DERIV_chain2 [OF DERIV_Phi] refl | simp)+
  then have D: "DERIV (\<lambda>t. exp (t * v - v\<^sup>2 / 2) * Phi t - Phi (t - v)) t
     :> (exp (t * v - v\<^sup>2 / 2) * v) * Phi t
        + exp (- (t - v)\<^sup>2 / 2) / ?c - exp (- (t - v)\<^sup>2 / 2) / ?c * 1"
    unfolding B .
  have "(exp (t * v - v\<^sup>2 / 2) * v) * Phi t
        + exp (- (t - v)\<^sup>2 / 2) / ?c - exp (- (t - v)\<^sup>2 / 2) / ?c * 1
      = v * exp (t * v - v\<^sup>2 / 2) * Phi t"
    by simp
  with D show ?thesis
    by (simp only:)
qed

lemma Phi_shift:
  assumes v: "0 < v"
  shows "Phi (d - v) \<le> exp (d * v - v\<^sup>2 / 2) * Phi d"
proof (rule ccontr)
  let ?h = "\<lambda>t. exp (t * v - v\<^sup>2 / 2) * Phi t - Phi (t - v)"
  assume "\<not> ?thesis"
  then have neg: "0 < - ?h d"
    by simp
  then obtain x where x: "Phi x < - ?h d"
    using Phi_small by blast
  define t where "t = min d (x + v)"
  have "t \<le> d" "t - v \<le> x"
    by (simp_all add: t_def)
  have "?h t \<le> ?h d"
  proof (rule DERIV_nonneg_imp_nondecreasing [OF \<open>t \<le> d\<close>])
    fix s :: real
    have "0 \<le> v * exp (s * v - v\<^sup>2 / 2) * Phi s"
      using v Phi_nonneg [of s] by simp
    then show "\<exists>y. DERIV ?h s :> y \<and> 0 \<le> y"
      using Phi_shift_deriv [of v s] by blast
  qed
  moreover have "- Phi (t - v) \<le> ?h t"
    using Phi_nonneg [of t] by simp
  moreover have "Phi (t - v) \<le> Phi x"
    using \<open>t - v \<le> x\<close> by (rule Phi_mono)
  ultimately show False
    using x by linarith
qed

lemma bsm_call_value_nonneg:
  assumes "0 < S" "0 < X" "0 < T" "0 < sigma"
  shows "0 \<le> bsm_call_value S X T r q sigma"
proof -
  define v where "v = sigma * sqrt T"
  define d1 where "d1 = (ln (S / X) + (r - q + 0.5 * sigma\<^sup>2) * T) / v"
  have v: "0 < v"
    using assms by (simp add: v_def)
  have v2: "v\<^sup>2 = sigma\<^sup>2 * T"
    using assms by (simp add: v_def power_mult_distrib)
  have "d1 * v = ln (S / X) + (r - q + 0.5 * sigma\<^sup>2) * T"
    using v by (simp add: d1_def)
  then have "d1 * v - v\<^sup>2 / 2 = ln (S / X) + (r * T - q * T)"
    by (simp add: v2 algebra_simps)
  then have "exp (d1 * v - v\<^sup>2 / 2) = S / X * exp (r * T - q * T)"
    using assms by (simp add: exp_add)
  then have "X * exp (- r * T) * exp (d1 * v - v\<^sup>2 / 2)
      = S * (exp (- r * T) * exp (r * T - q * T))"
    using assms by simp
  also have "\<dots> = S * exp (- q * T)"
    by (simp add: exp_add [symmetric])
  finally have S: "S * exp (- q * T) = X * exp (- r * T) * exp (d1 * v - v\<^sup>2 / 2)"
    by simp
  have "bsm_call_value S X T r q sigma
      = S * exp (- q * T) * Phi d1 - X * exp (- r * T) * Phi (d1 - v)"
    by (simp add: bsm_call_value_def bsm_d1_def bsm_d2_def d1_def v_def)
  also have "\<dots> = X * exp (- r * T) * (exp (d1 * v - v\<^sup>2 / 2) * Phi d1 - Phi (d1 - v))"
    by (subst S) (simp only: right_diff_distrib mult.assoc)
  finally show ?thesis
    using Phi_shift [OF v, of d1] assms by simp
qed

section \<open>The function on its intended domain\<close>

subsection \<open>Arithmetic of doubles\<close>

lemma fadd_NaN_right [simp]: "fadd x NaN = NaN"
  by (cases x) simp_all

lemma fmul_NaN_right [simp]: "fmul x NaN = NaN"
  by (cases x) simp_all

lemma fdiv_NaN_right [simp]: "fdiv x NaN = NaN"
  by (cases x) simp_all

lemma fmaximum_NaN_right [simp]: "fmaximum x NaN = NaN"
  by (cases x) simp_all

lemma fsub_Fin [simp]: "fsub (Fin a) (Fin b) = Fin (a - b)"
  by (simp add: fsub_def)

lemma fsub_NaN_left [simp]: "fsub NaN y = NaN"
  by (simp add: fsub_def)

lemma fsub_NaN_right [simp]: "fsub x NaN = NaN"
  by (simp add: fsub_def)

lemma fsum_NaN: "NaN \<in> set xs \<Longrightarrow> fsum xs = NaN"
  by (induction xs) auto

lemma fsum_Fin: "fsum (map (\<lambda>i. Fin (f i)) xs) = Fin (\<Sum>i\<leftarrow>xs. f i)"
  by (induction xs) simp_all

lemma fmean_NaN: "NaN \<in> set xs \<Longrightarrow> fmean xs = NaN"
  by (simp add: fmean_def fsum_NaN)

lemma fmean_Fin:
  "xs \<noteq> [] \<Longrightarrow> fmean (map (\<lambda>i. Fin (f i)) xs) = Fin ((\<Sum>i\<leftarrow>xs. f i) / real (length xs))"
  by (simp add: fmean_def fsum_Fin)

lemma blend_Fin [simp]: "blend p (Fin c) (Fin m) = Fin ((1 - p) * c + p * m)"
  by (simp add: blend_def)

lemma blend_NaN [simp]: "blend p c NaN = NaN"
  by (simp add: blend_def)

lemma payoff_Fin [simp]: "payoff k (Fin s) (Fin v) = Fin (max (k * s + (1 - k) * v) 0)"
  by (simp add: payoff_def)

lemma payoff_NaN [simp]: "payoff k s NaN = NaN"
  by (simp add: payoff_def)

subsection \<open>The call price\<close>

lemma call_price_closed_form:
  assumes "0 < S" "0 < X" "0 < T" "0 < sigma"
  shows "call_price S X T r q sigma = Fin (bsm_call_value S X T r q sigma)"
proof -
  have "0 < S / X" "0 < sigma * sqrt T"
    using assms by simp_all
  then show ?thesis
    using assms
    by (simp add: call_price_def bsm_call_value_def bsm_d1_def bsm_d2_def Let_def
        divide_less_0_iff)
qed

lemma bsm_formula_pos:
  assumes "0 < s" "0 < X" "0 < T" "0 < sigma"
  shows "bsm_formula (Fin s) X T r q sigma = Fin (bsm_call_value s X T r q sigma)"
proof -
  have "0 < s / X" "0 < sigma * sqrt T"
    using assms by simp_all
  then show ?thesis
    using assms
    by (simp add: bsm_formula_def bsm_call_value_def bsm_d1_def bsm_d2_def Let_def
        divide_less_0_iff)
qed

lemma bsm_formula_zero:
  assumes "0 < X" "0 < T" "0 < sigma"
  shows "bsm_formula (Fin 0) X T r q sigma = Fin 0"
  using assms by (simp add: bsm_formula_def Let_def fsub_def)

lemma bsm_formula_neg:
  assumes "s < 0" "0 < X"
  shows "bsm_formula (Fin s) X T r q sigma = NaN"
  using assms by (simp add: bsm_formula_def Let_def divide_neg_pos)

lemma call_price_formula:
  assumes "X \<noteq> 0" "0 \<le> T"
  shows "call_price S X T r q sigma = bsm_formula (Fin S) X T r q sigma"
  using assms by (simp add: call_price_def bsm_formula_def Let_def)

subsection \<open>The remaining maturity\<close>

lemma tau_0: "tau T n 0 = T"
  by (simp add: tau_def)

lemma tau_pos:
  assumes "0 < T" "int i < n"
  shows "0 < tau T n i"
proof -
  have "real i < real_of_int n"
    using assms(2) by linarith
  then have "real i * T / real_of_int n < T"
    using assms(1) by (simp add: field_simps)
  then show ?thesis
    by (simp add: tau_def)
qed



subsection \<open>One draw\<close>

lemma draw_eq:
  assumes "0 < X" "0 < T" "0 < sigma" "int i < n"
  shows "draw S X T r q sigma k n z i =
    Inr (Fin (spot S T r sigma k z i),
         bsm_formula (Fin (spot S T r sigma k z i)) X (tau T n i) r q sigma)"
proof -
  have t: "0 < tau T n i"
    using assms by (simp add: tau_pos)
  have "0 < sigma * sqrt (T / 365)"
    using assms by simp
  then show ?thesis
    using assms t
    by (simp add: draw_def random_normal_def product_signbit_def bsm_formula_def spot_def
        variate_def draw_mean_def draw_sd_def Let_def mult_less_0_iff)
qed

subsection \<open>The loop\<close>

lemma for_range_append:
  "for_range body (xs @ ys) a =
     (case for_range body xs a of Inl e \<Rightarrow> Inl e | Inr a' \<Rightarrow> for_range body ys a')"
  by (induction xs arbitrary: a) (auto split: sum.splits)

lemma for_range_fill:
  assumes d: "\<And>i. i < m \<Longrightarrow> draw S X T r q sigma k n z i = Inr (P i, V i)"
    and len: "m \<le> length (prices a)" "m \<le> length (values a)"
  shows "for_range (loop_body S X T r q sigma k n z) [0 ..< m] a =
    Inr (a\<lparr>prices := map P [0 ..< m] @ drop m (prices a),
           values := map V [0 ..< m] @ drop m (values a)\<rparr>)"
  using d len
proof (induction m)
  case 0
  then show ?case by simp
next
  case (Suc m)
  have IH: "for_range (loop_body S X T r q sigma k n z) [0 ..< m] a =
    Inr (a\<lparr>prices := map P [0 ..< m] @ drop m (prices a),
           values := map V [0 ..< m] @ drop m (values a)\<rparr>)"
    using Suc by simp
  have D: "draw S X T r q sigma k n z m = Inr (P m, V m)"
    using Suc.prems(1) by simp
  have up: "(map f [0 ..< m] @ drop m xs)[m := f m] = map f [0 ..< Suc m] @ drop (Suc m) xs"
    if "Suc m \<le> length xs" for f :: "nat \<Rightarrow> float64" and xs
  proof -
    have "drop m xs = xs ! m # drop (Suc m) xs"
      using that by (simp add: Cons_nth_drop_Suc)
    then show ?thesis
      by (simp add: list_update_append)
  qed
  let ?B = "loop_body S X T r q sigma k n z"
  let ?a = "a\<lparr>prices := map P [0 ..< m] @ drop m (prices a),
              values := map V [0 ..< m] @ drop m (values a)\<rparr>"
  have "for_range ?B [0 ..< Suc m] a = for_range ?B ([0 ..< m] @ [m]) a"
    by simp
  also have "\<dots> = ?B m ?a"
    by (simp only: for_range_append IH sum.case for_range.simps split: sum.split) simp
  also have "\<dots> = Inr (a\<lparr>prices := map P [0 ..< Suc m] @ drop (Suc m) (prices a),
           values := map V [0 ..< Suc m] @ drop (Suc m) (values a)\<rparr>)"
    using Suc.prems(2,3) by (simp add: loop_body_def D up del: upt_Suc)
  finally show ?case .
qed

lemma simulate_eq:
  assumes "0 < X" "0 < T" "0 < sigma" "0 \<le> n"
  shows "simulate S X T r q sigma k n z =
    Inr \<lparr>prices = map (\<lambda>i. Fin (spot S T r sigma k z i)) [0 ..< nat n],
         values = map (\<lambda>i. bsm_formula (Fin (spot S T r sigma k z i)) X (tau T n i) r q sigma)
                    [0 ..< nat n]\<rparr>"
proof -
  have "draw S X T r q sigma k n z i =
    Inr (Fin (spot S T r sigma k z i),
         bsm_formula (Fin (spot S T r sigma k z i)) X (tau T n i) r q sigma)"
    if "i < nat n" for i
    using that assms by (intro draw_eq) auto
  then show ?thesis
    unfolding simulate_def
    by (subst for_range_fill
          [where P = "\<lambda>i. Fin (spot S T r sigma k z i)"
             and V = "\<lambda>i. bsm_formula (Fin (spot S T r sigma k z i)) X (tau T n i) r q sigma"])
       simp_all
qed

lemma payoffs_eq:
  "payoffs k \<lparr>prices = map P is, values = map V is\<rparr> = map (\<lambda>i. payoff k (P i) (V i)) is"
  by (simp add: payoffs_def zip_map_map) (induction "is", simp_all)

subsection \<open>The returned price\<close>

lemma draw_succeeds:
  assumes "0 \<le> sigma" "0 \<le> T"
  shows "\<exists>pv. draw S X T r q sigma k n z i = Inr pv"
proof -
  have "0 \<le> sigma * sqrt (T / 365)"
    using assms by simp
  then show ?thesis
    using assms
    by (simp add: draw_def random_normal_def product_signbit_def Let_def mult_less_0_iff not_less)
qed

lemma simulate_succeeds:
  assumes "0 \<le> sigma" "0 \<le> T"
  shows "\<exists>a. simulate S X T r q sigma k n z = Inr a"
proof -
  obtain f where f: "\<And>i. draw S X T r q sigma k n z i = Inr (f i)"
    using draw_succeeds [OF assms] by metis
  have "draw S X T r q sigma k n z i = Inr (fst (f i), snd (f i))" for i
    by (simp add: f)
  then show ?thesis
    unfolding simulate_def
    by (subst for_range_fill [where P = "\<lambda>i. fst (f i)" and V = "\<lambda>i. snd (f i)"]) simp_all
qed

lemma snowball_option_eq:
  assumes "0 < X" "0 < T" "0 < sigma" "0 \<le> n"
  shows "snowball_option S X T r q sigma k p n z =
    Inr (blend p (call_price S X T r q sigma)
          (fmean (map (\<lambda>i. payoff k (Fin (spot S T r sigma k z i))
                           (bsm_formula (Fin (spot S T r sigma k z i)) X (tau T n i) r q sigma))
                   [0 ..< nat n])))"
  using assms by (simp add: snowball_option_def simulate_eq payoffs_eq)

lemma spot_sign:
  assumes "0 < S"
  shows "0 < spot S T r sigma k z i \<longleftrightarrow> 0 < 1 + k * variate T r sigma z i"
    and "0 \<le> spot S T r sigma k z i \<longleftrightarrow> draw_ok T r sigma k z i"
    and "spot S T r sigma k z i < 0 \<longleftrightarrow> \<not> draw_ok T r sigma k z i"
  using assms by (auto simp: spot_def draw_ok_def zero_less_mult_iff zero_le_mult_iff mult_less_0_iff)

lemma value_ok:
  assumes "0 < S" "0 < X" "0 < T" "0 < sigma" "int i < n" "draw_ok T r sigma k z i"
  shows "bsm_formula (Fin (spot S T r sigma k z i)) X (tau T n i) r q sigma
    = Fin (draw_value S X T r q sigma k n z i)"
proof (cases "0 < spot S T r sigma k z i")
  case True
  then show ?thesis
    using assms by (simp add: draw_value_def bsm_formula_pos tau_pos)
next
  case False
  moreover have "0 \<le> spot S T r sigma k z i"
    using assms by (simp add: spot_sign)
  ultimately have "spot S T r sigma k z i = 0"
    by simp
  then show ?thesis
    using assms by (simp add: draw_value_def bsm_formula_zero tau_pos)
qed

lemma value_bad:
  assumes "0 < S" "0 < X" "\<not> draw_ok T r sigma k z i"
  shows "bsm_formula (Fin (spot S T r sigma k z i)) X (tau T n i) r q sigma = NaN"
  using assms by (simp add: bsm_formula_neg spot_sign)

lemma payoff_ok:
  assumes "0 < S" "0 < X" "0 < T" "0 < sigma" "int i < n" "draw_ok T r sigma k z i"
  shows "payoff k (Fin (spot S T r sigma k z i))
           (bsm_formula (Fin (spot S T r sigma k z i)) X (tau T n i) r q sigma)
    = Fin (draw_payoff S X T r q sigma k n z i)"
  using assms by (simp add: value_ok draw_payoff_def)

lemma payoff_bad:
  assumes "0 < S" "0 < X" "\<not> draw_ok T r sigma k z i"
  shows "payoff k (Fin (spot S T r sigma k z i))
           (bsm_formula (Fin (spot S T r sigma k z i)) X (tau T n i) r q sigma) = NaN"
  using assms by (simp add: value_bad)

lemma mean_payoff_ok:
  assumes "0 < S" "0 < X" "0 < T" "0 < sigma" "0 < n"
    and ok: "\<forall>i<nat n. draw_ok T r sigma k z i"
  shows "fmean (map (\<lambda>i. payoff k (Fin (spot S T r sigma k z i))
                           (bsm_formula (Fin (spot S T r sigma k z i)) X (tau T n i) r q sigma))
                   [0 ..< nat n])
    = Fin ((\<Sum>i<nat n. draw_payoff S X T r q sigma k n z i) / real_of_int n)"
proof -
  have eq: "map (\<lambda>i. payoff k (Fin (spot S T r sigma k z i))
                           (bsm_formula (Fin (spot S T r sigma k z i)) X (tau T n i) r q sigma))
                   [0 ..< nat n]
      = map (\<lambda>i. Fin (draw_payoff S X T r q sigma k n z i)) [0 ..< nat n]"
    using assms by (intro map_cong refl payoff_ok) auto
  have ne: "[0 ..< nat n] \<noteq> []"
    using assms by simp
  show ?thesis
    unfolding eq fmean_Fin [OF ne]
    using assms by (simp add: interv_sum_list_conv_sum_set_nat atLeast0LessThan)
qed

lemma mean_payoff_bad:
  assumes "0 < S" "0 < X"
    and bad: "i < nat n" "\<not> draw_ok T r sigma k z i"
  shows "fmean (map (\<lambda>i. payoff k (Fin (spot S T r sigma k z i))
                           (bsm_formula (Fin (spot S T r sigma k z i)) X (tau T n i) r q sigma))
                   [0 ..< nat n]) = NaN"
proof (rule fmean_NaN)
  have "NaN = (\<lambda>i. payoff k (Fin (spot S T r sigma k z i))
                           (bsm_formula (Fin (spot S T r sigma k z i)) X (tau T n i) r q sigma)) i"
    using assms by (simp add: payoff_bad)
  moreover have "i \<in> set [0 ..< nat n]"
    using bad by simp
  ultimately show "NaN \<in> set (map (\<lambda>i. payoff k (Fin (spot S T r sigma k z i))
                           (bsm_formula (Fin (spot S T r sigma k z i)) X (tau T n i) r q sigma))
                   [0 ..< nat n])"
    unfolding set_map by (rule image_eqI)
qed

lemma mean_draw_payoff_nonneg: "0 \<le> (\<Sum>i<m. draw_payoff S X T r q sigma k n z i) / real_of_int n"
  if "0 < n"
  using that by (intro divide_nonneg_nonneg sum_nonneg) (simp_all add: draw_payoff_def)

lemma simulate_nth:
  assumes "0 < X" "0 < T" "0 < sigma" "int i < n"
  shows "\<exists>a. simulate S X T r q sigma k n z = Inr a
    \<and> length (prices a) = nat n \<and> length (values a) = nat n
    \<and> prices a ! i = Fin (spot S T r sigma k z i)
    \<and> values a ! i = bsm_formula (Fin (spot S T r sigma k z i)) X (tau T n i) r q sigma"
proof -
  have "i < nat n" "0 \<le> n"
    using assms by simp_all
  then show ?thesis
    using assms by (simp add: simulate_eq)
qed

lemma bsm_formula_cases:
  assumes "0 < S" "0 < X" "0 < T" "0 < sigma" "int i < n"
  shows "bsm_formula (Fin (spot S T r sigma k z i)) X (tau T n i) r q sigma =
    (if 0 < 1 + k * variate T r sigma z i
     then Fin (bsm_call_value (spot S T r sigma k z i) X (tau T n i) r q sigma)
     else if 1 + k * variate T r sigma z i = 0 then Fin 0 else NaN)"
proof -
  consider "0 < 1 + k * variate T r sigma z i" | "1 + k * variate T r sigma z i = 0"
    | "1 + k * variate T r sigma z i < 0"
    by linarith
  then show ?thesis
  proof cases
    case 1
    then have "0 < spot S T r sigma k z i"
      using assms by (simp add: spot_sign)
    then show ?thesis
      using 1 assms by (simp add: bsm_formula_pos tau_pos)
  next
    case 2
    then have "spot S T r sigma k z i = 0"
      by (simp add: spot_def)
    then show ?thesis
      using 2 assms by (simp add: bsm_formula_zero tau_pos)
  next
    case 3
    then have "\<not> draw_ok T r sigma k z i"
      by (simp add: draw_ok_def)
    then show ?thesis
      using 3 assms by (simp add: value_bad)
  qed
qed


lemma simulate_single:
  assumes "0 < X" "0 < T" "0 < sigma"
  shows "simulate S X T r q sigma k 1 z =
    Inr \<lparr>prices = [Fin (spot S T r sigma k z 0)],
         values = [bsm_formula (Fin (spot S T r sigma k z 0)) X T r q sigma]\<rparr>"
  using assms by (simp add: simulate_eq tau_0)

subsection \<open>No snowballing: \<open>k = 0\<close>\<close>

lemma spot_k0 [simp]: "spot S T r sigma 0 z i = S"
  by (simp add: spot_def)

lemma draw_ok_k0 [simp]: "draw_ok T r sigma 0 z i"
  by (simp add: draw_ok_def)

lemma draw_value_k0:
  "0 < S \<Longrightarrow> draw_value S X T r q sigma 0 n z i = bsm_call_value S X (tau T n i) r q sigma"
  by (simp add: draw_value_def)

lemma draw_payoff_k0:
  assumes "0 < S" "0 < X" "0 < T" "0 < sigma" "int i < n"
  shows "draw_payoff S X T r q sigma 0 n z i = bsm_call_value S X (tau T n i) r q sigma"
  using assms bsm_call_value_nonneg [of S X "tau T n i" sigma r q]
  by (simp add: draw_payoff_def draw_value_k0 tau_pos)

lemma snowball_option_k0:
  assumes "0 < S" "0 < X" "0 < T" "0 < sigma" "1 \<le> n"
  shows "snowball_option S X T r q sigma 0 p n z =
    Inr (Fin ((1 - p) * bsm_call_value S X T r q sigma
              + p * ((\<Sum>i<nat n. bsm_call_value S X (tau T n i) r q sigma) / real_of_int n)))"
proof -
  have n: "0 < n" "0 \<le> n"
    using assms by simp_all
  have s: "(\<Sum>i<nat n. draw_payoff S X T r q sigma 0 n z i)
      = (\<Sum>i<nat n. bsm_call_value S X (tau T n i) r q sigma)"
    using assms by (intro sum.cong refl draw_payoff_k0) auto
  have "snowball_option S X T r q sigma 0 p n z =
    Inr (blend p (call_price S X T r q sigma)
          (fmean (map (\<lambda>i. payoff 0 (Fin (spot S T r sigma 0 z i))
                           (bsm_formula (Fin (spot S T r sigma 0 z i)) X (tau T n i) r q sigma))
                   [0 ..< nat n])))"
    using assms n by (intro snowball_option_eq)
  also have "\<dots> = Inr (blend p (Fin (bsm_call_value S X T r q sigma))
      (Fin ((\<Sum>i<nat n. draw_payoff S X T r q sigma 0 n z i) / real_of_int n)))"
    using assms n
    by (simp only: call_price_closed_form mean_payoff_ok draw_ok_k0 simp_thms)
  finally show ?thesis
    by (simp add: s)
qed

subsection \<open>Usable and unusable draws\<close>

lemma mean_payoff_cases:
  assumes "0 < S" "0 < X" "0 < T" "0 < sigma" "1 \<le> n"
  shows "fmean (map (\<lambda>i. payoff k (Fin (spot S T r sigma k z i))
                           (bsm_formula (Fin (spot S T r sigma k z i)) X (tau T n i) r q sigma))
                   [0 ..< nat n])
    = (if \<forall>i<nat n. draw_ok T r sigma k z i
       then Fin ((\<Sum>i<nat n. draw_payoff S X T r q sigma k n z i) / real_of_int n) else NaN)"
proof (cases "\<forall>i<nat n. draw_ok T r sigma k z i")
  case True
  then show ?thesis
    using assms mean_payoff_ok [of S X T sigma n r k z q] by simp
next
  case False
  then obtain i where "i < nat n" "\<not> draw_ok T r sigma k z i"
    by blast
  then show ?thesis
    using False assms mean_payoff_bad [of S X i n T r sigma k z q] by simp
qed

lemma snowball_option_cases:
  assumes "0 < S" "0 < X" "0 < T" "0 < sigma" "1 \<le> n"
  shows "snowball_option S X T r q sigma k p n z =
    Inr (if \<forall>i<nat n. draw_ok T r sigma k z i
         then Fin ((1 - p) * bsm_call_value S X T r q sigma
                   + p * ((\<Sum>i<nat n. draw_payoff S X T r q sigma k n z i) / real_of_int n))
         else NaN)"
proof -
  have "snowball_option S X T r q sigma k p n z =
    Inr (blend p (call_price S X T r q sigma)
          (fmean (map (\<lambda>i. payoff k (Fin (spot S T r sigma k z i))
                           (bsm_formula (Fin (spot S T r sigma k z i)) X (tau T n i) r q sigma))
                   [0 ..< nat n])))"
    using assms by (intro snowball_option_eq) simp_all
  then show ?thesis
    unfolding mean_payoff_cases [OF assms] call_price_closed_form [OF assms(1-4)]
    by simp
qed

lemma payoffs_nth:
  assumes "length (prices a) = m" "length (values a) = m"
  shows "payoffs k a = map (\<lambda>i. payoff k (prices a ! i) (values a ! i)) [0 ..< m]"
  using assms by (auto simp: payoffs_def intro!: nth_equalityI)

lemma isfinite_bsm_formula:
  assumes "0 < S" "0 < X" "0 < T" "0 < sigma" "int i < n"
  shows "isfinite (bsm_formula (Fin (spot S T r sigma k z i)) X (tau T n i) r q sigma)
      \<longleftrightarrow> 0 \<le> 1 + k * variate T r sigma z i"
    and "bsm_formula (Fin (spot S T r sigma k z i)) X (tau T n i) r q sigma = NaN
      \<longleftrightarrow> 1 + k * variate T r sigma z i < 0"
  unfolding bsm_formula_cases [OF assms] by auto

subsection \<open>Outside the intended domain\<close>

lemma fmean_Nil: "fmean [] = NaN"
  by (simp add: fmean_def)

lemma blend_NaN_left [simp]: "blend p NaN m = NaN"
  by (simp add: blend_def)

lemma snowball_option_zero_strike:
  "snowball_option S 0 T r q sigma k p n z = Inl ZeroDivisionError"
  by (simp add: snowball_option_def)

lemma snowball_option_negative_size:
  "X \<noteq> 0 \<Longrightarrow> n < 0 \<Longrightarrow> snowball_option S X T r q sigma k p n z = Inl ValueError"
  by (simp add: snowball_option_def)

lemma snowball_option_no_draws:
  "X \<noteq> 0 \<Longrightarrow> snowball_option S X T r q sigma k p 0 z = Inr NaN"
  by (simp add: snowball_option_def simulate_def payoffs_def fmean_Nil)

lemma draw_negative_scale:
  assumes "sigma < 0" "0 \<le> T"
  shows "draw S X T r q sigma k n z i = Inl ValueError"
  using assms by (simp add: draw_def random_normal_def product_signbit_def not_less)

lemma snowball_option_negative_scale:
  assumes "X \<noteq> 0" "0 < n" "sigma < 0" "0 \<le> T"
  shows "snowball_option S X T r q sigma k p n z = Inl ValueError"
proof -
  have "[0 ..< nat n] = 0 # [Suc 0 ..< nat n]"
    using assms by (simp add: upt_conv_Cons)
  then have "simulate S X T r q sigma k n z = Inl ValueError"
    using assms by (simp add: simulate_def loop_body_def draw_negative_scale)
  then show ?thesis
    using assms by (simp add: snowball_option_def)
qed

lemma call_price_at_expiry: "X \<noteq> 0 \<Longrightarrow> call_price X X 0 r q sigma = NaN"
  by (simp add: call_price_def Let_def)

lemma snowball_option_at_expiry:
  assumes "X \<noteq> 0" "0 \<le> n" "0 \<le> sigma"
  shows "snowball_option X X 0 r q sigma k p n z = Inr NaN"
proof -
  have "\<exists>a. simulate X X 0 r q sigma k n z = Inr a"
    using assms by (intro simulate_succeeds) simp_all
  then obtain a where "simulate X X 0 r q sigma k n z = Inr a"
    by blast
  then show ?thesis
    using assms by (simp add: snowball_option_def call_price_at_expiry)
qed

subsection \<open>Bounds on the blend\<close>

lemma fmax_list_Fin:
  assumes "xs \<noteq> []"
  shows "\<exists>M. fmax_list (map (\<lambda>i. Fin (f i)) xs) = Fin M \<and> (\<forall>i\<in>set xs. f i \<le> M)"
  using assms
proof (induction xs)
  case Nil
  then show ?case by simp
next
  case (Cons x xs)
  show ?case
  proof (cases "xs = []")
    case True
    then show ?thesis by simp
  next
    case False
    then obtain M where "fmax_list (map (\<lambda>i. Fin (f i)) xs) = Fin M" "\<forall>i\<in>set xs. f i \<le> M"
      using Cons.IH by blast
    then show ?thesis
      by (intro exI [of _ "max (f x) M"]) auto
  qed
qed

lemma fmin_list_Fin:
  assumes "xs \<noteq> []"
  shows "\<exists>m. fmin_list (map (\<lambda>i. Fin (f i)) xs) = Fin m \<and> (\<forall>i\<in>set xs. m \<le> f i)"
  using assms
proof (induction xs)
  case Nil
  then show ?case by simp
next
  case (Cons x xs)
  show ?case
  proof (cases "xs = []")
    case True
    then show ?thesis by simp
  next
    case False
    then obtain m where "fmin_list (map (\<lambda>i. Fin (f i)) xs) = Fin m" "\<forall>i\<in>set xs. m \<le> f i"
      using Cons.IH by blast
    then show ?thesis
      by (intro exI [of _ "min (f x) m"]) auto
  qed
qed

lemma mean_between:
  fixes f :: "nat \<Rightarrow> real"
  assumes "0 < n" and lo: "\<And>i. i < n \<Longrightarrow> m \<le> f i" and hi: "\<And>i. i < n \<Longrightarrow> f i \<le> M"
  shows "m \<le> (\<Sum>i<n. f i) / real n" "(\<Sum>i<n. f i) / real n \<le> M"
proof -
  have "(\<Sum>i<n. f i) \<le> real (card {..<n}) * M"
    by (rule sum_bounded_above) (simp add: hi)
  then show "(\<Sum>i<n. f i) / real n \<le> M"
    using assms(1) by (simp add: field_simps)
  have "real (card {..<n}) * m \<le> (\<Sum>i<n. f i)"
    by (rule sum_bounded_below) (simp add: lo)
  then show "m \<le> (\<Sum>i<n. f i) / real n"
    using assms(1) by (simp add: field_simps)
qed

lemma convex_between:
  fixes c :: real
  assumes "0 \<le> p" "p \<le> 1" "lo \<le> m" "m \<le> hi"
  shows "min c lo \<le> (1 - p) * c + p * m" "(1 - p) * c + p * m \<le> max c hi"
proof -
  have a: "(1 - p) * min c lo \<le> (1 - p) * c" "p * min c lo \<le> p * m"
    using assms by (auto intro!: mult_left_mono)
  have "min c lo = (1 - p) * min c lo + p * min c lo"
    by (simp add: algebra_simps)
  then show "min c lo \<le> (1 - p) * c + p * m"
    using a by linarith
  have b: "(1 - p) * c \<le> (1 - p) * max c hi" "p * m \<le> p * max c hi"
    using assms by (auto intro!: mult_left_mono)
  have "max c hi = (1 - p) * max c hi + p * max c hi"
    by (simp add: algebra_simps)
  then show "(1 - p) * c + p * m \<le> max c hi"
    using b by linarith
qed

lemma payoffs_ok:
  assumes "0 < S" "0 < X" "0 < T" "0 < sigma" "1 \<le> n"
    and ok: "\<forall>i<nat n. draw_ok T r sigma k z i"
  shows "map (\<lambda>i. payoff k (Fin (spot S T r sigma k z i))
                           (bsm_formula (Fin (spot S T r sigma k z i)) X (tau T n i) r q sigma))
                   [0 ..< nat n]
      = map (\<lambda>i. Fin (draw_payoff S X T r q sigma k n z i)) [0 ..< nat n]"
  using assms by (intro map_cong refl payoff_ok) auto

section \<open>The claims\<close>

text \<open>
  Claim C1, as stated: for \<open>S\<close>, \<open>X\<close>, \<open>T\<close>, \<open>sigma\<close> positive and \<open>1 \<le> n\<close> the returned
  price is \<open>(1 - p) * call_price + p * mean payoff\<close> with
  \<open>payoff_i = max (k * prices[i] + (1 - k) * values[i]) 0\<close> floored pointwise, and the mean
  term is therefore not negative. The last part fails: with \<open>S = X = 100\<close>, \<open>T = 365\<close>,
  \<open>r = 1/2\<close>, \<open>q = 0\<close>, \<open>sigma = 1\<close>, \<open>k = 1\<close> and one draw whose standard normal variate
  is \<open>-2\<close>, the variate is \<open>r_0 = -2\<close>, the simulated spot \<open>-100\<close>, its logarithm and the
  value \<open>nan\<close>; \<^verbatim>\<open>np.maximum\<close> keeps the \<open>nan\<close>, and the mean is \<open>nan\<close>, which is not
  \<open>\<ge> 0\<close>.
\<close>

theorem mean_payoff_nan:
  "simulate 100 100 365 (1 / 2) 0 1 1 1 (\<lambda>i. - 2) = Inr \<lparr>prices = [Fin (- 100)], values = [NaN]\<rparr>
   \<and> payoffs 1 \<lparr>prices = [Fin (- 100)], values = [NaN]\<rparr> = [NaN]
   \<and> \<not> fle (Fin 0) (fmean (payoffs 1 \<lparr>prices = [Fin (- 100)], values = [NaN]\<rparr>))"
proof -
  have s: "spot 100 365 (1 / 2) 1 1 (\<lambda>i. - 2) 0 = - 100"
    by (simp add: spot_def variate_def draw_mean_def draw_sd_def)
  have "simulate 100 100 365 (1 / 2) 0 1 1 1 (\<lambda>i. - 2)
      = Inr \<lparr>prices = [Fin (- 100)], values = [NaN]\<rparr>"
    by (simp add: simulate_single s bsm_formula_neg)
  moreover have "payoffs 1 \<lparr>prices = [Fin (- 100)], values = [NaN]\<rparr> = [NaN]"
    by (simp add: payoffs_def)
  ultimately show ?thesis
    by (simp add: fmean_def)
qed

text \<open>
  Claim C1, amended: on the same domain the returned price is the blend
  \<open>(1 - p) * call_price + p * mean payoff\<close>, the payoffs being floored pointwise before
  the mean is taken; the mean term is not negative exactly when \<open>0 \<le> 1 + k * r_i\<close> for
  every draw, and it is \<open>nan\<close> exactly when some draw has \<open>1 + k * r_i < 0\<close>.
\<close>

theorem price_is_blend:
  assumes "0 < S" "0 < X" "0 < T" "0 < sigma" "1 \<le> n"
  shows "\<exists>a. simulate S X T r q sigma k n z = Inr a
    \<and> length (prices a) = nat n \<and> length (values a) = nat n
    \<and> payoffs k a =
        map (\<lambda>i. fmaximum (fadd (fmul (Fin k) (prices a ! i)) (fmul (Fin (1 - k)) (values a ! i)))
                   (Fin 0)) [0 ..< nat n]
    \<and> snowball_option S X T r q sigma k p n z =
        Inr (fadd (fmul (Fin (1 - p)) (call_price S X T r q sigma))
                  (fmul (Fin p) (fmean (payoffs k a))))
    \<and> (fle (Fin 0) (fmean (payoffs k a)) \<longleftrightarrow> (\<forall>i<nat n. 0 \<le> 1 + k * variate T r sigma z i))
    \<and> (fmean (payoffs k a) = NaN \<longleftrightarrow> (\<exists>i<nat n. 1 + k * variate T r sigma z i < 0))"
proof -
  let ?a = "\<lparr>prices = map (\<lambda>i. Fin (spot S T r sigma k z i)) [0 ..< nat n],
         values = map (\<lambda>i. bsm_formula (Fin (spot S T r sigma k z i)) X (tau T n i) r q sigma)
                    [0 ..< nat n]\<rparr>"
  have n: "0 \<le> n" "0 < n"
    using assms by simp_all
  have a: "simulate S X T r q sigma k n z = Inr ?a"
    using assms n by (intro simulate_eq)
  have len: "length (prices ?a) = nat n" "length (values ?a) = nat n"
    by simp_all
  have pay: "payoffs k ?a =
        map (\<lambda>i. fmaximum (fadd (fmul (Fin k) (prices ?a ! i)) (fmul (Fin (1 - k)) (values ?a ! i)))
                   (Fin 0)) [0 ..< nat n]"
    using payoffs_nth [OF len, of k] by (simp only: payoff_def)
  have opt: "snowball_option S X T r q sigma k p n z =
        Inr (fadd (fmul (Fin (1 - p)) (call_price S X T r q sigma))
                  (fmul (Fin p) (fmean (payoffs k ?a))))"
    using assms n by (simp add: snowball_option_def a blend_def)
  have m: "fmean (payoffs k ?a) = (if \<forall>i<nat n. draw_ok T r sigma k z i
       then Fin ((\<Sum>i<nat n. draw_payoff S X T r q sigma k n z i) / real_of_int n) else NaN)"
    unfolding payoffs_eq by (rule mean_payoff_cases [OF assms])
  have nonneg: "0 \<le> (\<Sum>i<nat n. draw_payoff S X T r q sigma k n z i) / real_of_int n"
    using n by (intro mean_draw_payoff_nonneg)
  have m1: "fle (Fin 0) (fmean (payoffs k ?a)) \<longleftrightarrow> (\<forall>i<nat n. 0 \<le> 1 + k * variate T r sigma z i)"
    unfolding m using nonneg by (simp add: draw_ok_def)
  have m2: "fmean (payoffs k ?a) = NaN \<longleftrightarrow> (\<exists>i<nat n. 1 + k * variate T r sigma z i < 0)"
    unfolding m by (auto simp: draw_ok_def not_le)
  show ?thesis
    using a len pay opt m1 m2 by blast
qed

text \<open>
  The benchmark parameters with \<open>k = 1/2\<close>, \<open>p = 1/4\<close>, three draws, the generator returning 0.
\<close>

theorem price_is_blend_witness:
  "(0::real) < 100 \<and> (0::real) < 100 \<and> (0::real) < 1 \<and> (0::real) < 1 / 5 \<and> (1::int) \<le> 3
   \<and> (\<exists>a. simulate 100 100 1 (1 / 20) 0 (1 / 5) (1 / 2) 3 (\<lambda>i. 0) = Inr a
    \<and> length (prices a) = nat 3 \<and> length (values a) = nat 3
    \<and> payoffs (1 / 2) a =
        map (\<lambda>i. fmaximum (fadd (fmul (Fin (1 / 2)) (prices a ! i))
                                 (fmul (Fin (1 - 1 / 2)) (values a ! i)))
                   (Fin 0)) [0 ..< nat 3]
    \<and> snowball_option 100 100 1 (1 / 20) 0 (1 / 5) (1 / 2) (1 / 4) 3 (\<lambda>i. 0) =
        Inr (fadd (fmul (Fin (1 - 1 / 4)) (call_price 100 100 1 (1 / 20) 0 (1 / 5)))
                  (fmul (Fin (1 / 4)) (fmean (payoffs (1 / 2) a))))
    \<and> fle (Fin 0) (fmean (payoffs (1 / 2) a))
    \<and> fmean (payoffs (1 / 2) a) \<noteq> NaN)"
proof -
  have h: "(0::real) < 100" "(0::real) < 1" "(0::real) < 1 / 5" "(1::int) \<le> 3"
    by simp_all
  have ok: "0 \<le> 1 + 1 / 2 * variate 1 (1 / 20) (1 / 5) (\<lambda>i. 0) i" for i
    by (simp add: variate_def draw_mean_def draw_sd_def power2_eq_square)
  obtain a where a: "simulate 100 100 1 (1 / 20) 0 (1 / 5) (1 / 2) 3 (\<lambda>i. 0) = Inr a"
    "length (prices a) = nat 3" "length (values a) = nat 3"
    "payoffs (1 / 2) a =
        map (\<lambda>i. fmaximum (fadd (fmul (Fin (1 / 2)) (prices a ! i))
                                 (fmul (Fin (1 - 1 / 2)) (values a ! i)))
                   (Fin 0)) [0 ..< nat 3]"
    "snowball_option 100 100 1 (1 / 20) 0 (1 / 5) (1 / 2) (1 / 4) 3 (\<lambda>i. 0) =
        Inr (fadd (fmul (Fin (1 - 1 / 4)) (call_price 100 100 1 (1 / 20) 0 (1 / 5)))
                  (fmul (Fin (1 / 4)) (fmean (payoffs (1 / 2) a))))"
    "fle (Fin 0) (fmean (payoffs (1 / 2) a))
       \<longleftrightarrow> (\<forall>i<nat 3. 0 \<le> 1 + 1 / 2 * variate 1 (1 / 20) (1 / 5) (\<lambda>i. 0) i)"
    "fmean (payoffs (1 / 2) a) = NaN
       \<longleftrightarrow> (\<exists>i<nat 3. 1 + 1 / 2 * variate 1 (1 / 20) (1 / 5) (\<lambda>i. 0) i < 0)"
    using price_is_blend [OF h(1) h(1) h(2) h(3) h(4), of "1 / 20" 0 "1 / 2" "\<lambda>i. 0" "1 / 4"]
    by blast
  have "fle (Fin 0) (fmean (payoffs (1 / 2) a))"
    unfolding a(6) using ok by blast
  moreover have "fmean (payoffs (1 / 2) a) \<noteq> NaN"
    unfolding a(7) using ok by (simp add: not_less)
  ultimately show ?thesis
    using h a(1-5) by blast
qed

text \<open>
  Claim C2. For \<open>S\<close>, \<open>X\<close>, \<open>T\<close>, \<open>sigma\<close> positive, the call price computed before the
  loop is the closed-form Black-Scholes-Merton value
  \<open>S * exp (- q * T) * Phi d1 - X * exp (- r * T) * Phi d2\<close> with
  \<open>d1 = (ln (S / X) + (r - q + 0.5 * sigma\<^sup>2) * T) / (sigma * sqrt T)\<close> and
  \<open>d2 = d1 - sigma * sqrt T\<close>. It is a function of these six parameters alone: whatever the
  number of draws and the variates drawn, this value is the one that enters the returned
  blend.
\<close>

theorem call_price_is_bsm:
  assumes "0 < S" "0 < X" "0 < T" "0 < sigma" "0 \<le> n"
  shows "call_price S X T r q sigma
      = Fin (S * exp (- q * T) * Phi (bsm_d1 S X T r q sigma)
             - X * exp (- r * T) * Phi (bsm_d1 S X T r q sigma - sigma * sqrt T))
    \<and> bsm_d1 S X T r q sigma = (ln (S / X) + (r - q + 0.5 * sigma\<^sup>2) * T) / (sigma * sqrt T)
    \<and> (\<exists>m. snowball_option S X T r q sigma k p n z
              = Inr (blend p (Fin (bsm_call_value S X T r q sigma)) m))"
proof (intro conjI)
  show "call_price S X T r q sigma
      = Fin (S * exp (- q * T) * Phi (bsm_d1 S X T r q sigma)
             - X * exp (- r * T) * Phi (bsm_d1 S X T r q sigma - sigma * sqrt T))"
    using call_price_closed_form [of S X T sigma r q] assms
    by (simp add: bsm_call_value_def bsm_d2_def)
  show "bsm_d1 S X T r q sigma = (ln (S / X) + (r - q + 0.5 * sigma\<^sup>2) * T) / (sigma * sqrt T)"
    by (simp add: bsm_d1_def)
  show "\<exists>m. snowball_option S X T r q sigma k p n z
                  = Inr (blend p (Fin (bsm_call_value S X T r q sigma)) m)"
    using assms by (simp add: snowball_option_eq call_price_closed_form) blast
qed

text \<open>The benchmark parameters of the specification, with three draws.\<close>

theorem call_price_is_bsm_witness:
  "(0::real) < 100 \<and> (0::real) < 100 \<and> (0::real) < 1 \<and> (0::real) < 1 / 5 \<and> (0::int) \<le> 3
   \<and> call_price 100 100 1 (1 / 20) 0 (1 / 5)
      = Fin (100 * exp (- 0 * 1) * Phi (bsm_d1 100 100 1 (1 / 20) 0 (1 / 5))
             - 100 * exp (- (1 / 20) * 1)
               * Phi (bsm_d1 100 100 1 (1 / 20) 0 (1 / 5) - 1 / 5 * sqrt 1))
   \<and> bsm_d1 100 100 1 (1 / 20) 0 (1 / 5)
      = (ln (100 / 100) + (1 / 20 - 0 + 0.5 * (1 / 5)\<^sup>2) * 1) / (1 / 5 * sqrt 1)
   \<and> (\<exists>m. snowball_option 100 100 1 (1 / 20) 0 (1 / 5) (1 / 2) (1 / 2) 3 (\<lambda>i. 0)
              = Inr (blend (1 / 2) (Fin (bsm_call_value 100 100 1 (1 / 20) 0 (1 / 5))) m))"
  using call_price_is_bsm [of 100 100 1 "1 / 5" 3 "1 / 20" 0 "1 / 2" "1 / 2" "\<lambda>i. 0"] by simp

text \<open>
  Claim C3. For \<open>S\<close>, \<open>X\<close>, \<open>T\<close>, \<open>sigma\<close> positive and every draw \<open>i\<close> of
  \<open>0, \<dots>, n - 1\<close>: the iteration draws one variate \<open>r_i\<close>, the generator's standard normal
  variate scaled to mean \<open>(r - 0.5 * sigma\<^sup>2) * T / 365\<close> and standard deviation
  \<open>sigma * sqrt (T / 365)\<close>; it stores \<open>S_i = S * (1 + k * r_i)\<close> in \<open>prices[i]\<close>, and in
  \<open>values[i]\<close> the call formula of the baseline with \<open>S_i\<close> for \<open>S\<close> and
  \<open>T - i * T / n\<close> for \<open>T\<close>, the other parameters unchanged. The last conjunct gives the
  stored value in closed form: the Black-Scholes-Merton value when \<open>S_i\<close> is positive, 0 when
  it is 0, \<open>nan\<close> when it is negative.
\<close>

theorem draw_step:
  assumes "0 < S" "0 < X" "0 < T" "0 < sigma" "int i < n"
  shows "\<exists>a r_i. simulate S X T r q sigma k n z = Inr a
    \<and> r_i = (r - 0.5 * sigma\<^sup>2) * T / 365 + sigma * sqrt (T / 365) * z i
    \<and> prices a ! i = Fin (S * (1 + k * r_i))
    \<and> values a ! i = bsm_formula (prices a ! i) X (T - real i * T / real_of_int n) r q sigma
    \<and> call_price S X T r q sigma = bsm_formula (Fin S) X T r q sigma
    \<and> values a ! i =
        (if 0 < 1 + k * r_i
         then Fin (bsm_call_value (S * (1 + k * r_i)) X (T - real i * T / real_of_int n) r q sigma)
         else if 1 + k * r_i = 0 then Fin 0 else NaN)"
proof -
  obtain a where a: "simulate S X T r q sigma k n z = Inr a"
    "prices a ! i = Fin (spot S T r sigma k z i)"
    "values a ! i = bsm_formula (Fin (spot S T r sigma k z i)) X (tau T n i) r q sigma"
    using simulate_nth [OF assms(2-5), of S r q k z] by blast
  have v: "variate T r sigma z i = (r - 0.5 * sigma\<^sup>2) * T / 365 + sigma * sqrt (T / 365) * z i"
    by (simp add: variate_def draw_mean_def draw_sd_def)
  have c: "call_price S X T r q sigma = bsm_formula (Fin S) X T r q sigma"
    using assms by (intro call_price_formula) simp_all
  have "values a ! i =
    (if 0 < 1 + k * variate T r sigma z i
     then Fin (bsm_call_value (spot S T r sigma k z i) X (tau T n i) r q sigma)
     else if 1 + k * variate T r sigma z i = 0 then Fin 0 else NaN)"
    unfolding a(3) by (rule bsm_formula_cases [OF assms])
  then show ?thesis
    using a c unfolding v spot_def tau_def
    by (intro exI conjI) (rule refl | assumption | simp only: v)+
qed

text \<open>The benchmark parameters, the second of three draws, the generator returning 0.\<close>

theorem draw_step_witness:
  "(0::real) < 100 \<and> (0::real) < 100 \<and> (0::real) < 1 \<and> (0::real) < 1 / 5 \<and> int 1 < 3
   \<and> (\<exists>a r_i. simulate 100 100 1 (1 / 20) 0 (1 / 5) (1 / 2) 3 (\<lambda>i. 0) = Inr a
    \<and> r_i = (1 / 20 - 0.5 * (1 / 5)\<^sup>2) * 1 / 365 + 1 / 5 * sqrt (1 / 365) * 0
    \<and> prices a ! 1 = Fin (100 * (1 + 1 / 2 * r_i))
    \<and> values a ! 1 = bsm_formula (prices a ! 1) 100 (1 - real 1 * 1 / real_of_int 3) (1 / 20) 0 (1 / 5)
    \<and> call_price 100 100 1 (1 / 20) 0 (1 / 5) = bsm_formula (Fin 100) 100 1 (1 / 20) 0 (1 / 5)
    \<and> values a ! 1 =
        (if 0 < 1 + 1 / 2 * r_i
         then Fin (bsm_call_value (100 * (1 + 1 / 2 * r_i)) 100 (1 - real 1 * 1 / real_of_int 3)
                 (1 / 20) 0 (1 / 5))
         else if 1 + 1 / 2 * r_i = 0 then Fin 0 else NaN))"
proof -
  have h: "(0::real) < 100" "(0::real) < 1" "(0::real) < 1 / 5" "int 1 < 3"
    by simp_all
  show ?thesis
    using h draw_step [OF h(1) h(1) h(2) h(3) h(4), of "1 / 20" 0 "1 / 2" "\<lambda>i. 0"]
    by (intro conjI) assumption+
qed

text \<open>
  Claim C4, as stated: a call with \<open>S\<close>, \<open>X\<close>, \<open>T\<close> or \<open>sigma\<close> not positive, or
  \<open>n \<le> 0\<close>, raises \<open>InvalidParameter\<close> instead of returning a number such as \<open>nan\<close>. The
  function has no such check and no such exception. At the benchmark parameters with
  \<open>T = 0\<close> and one draw, \<open>d1\<close> is \<open>0.0 / 0.0\<close>, and the function returns \<open>nan\<close>.
\<close>

theorem expiry_returns_nan:
  "snowball_option 100 100 0 (1 / 20) 0 (1 / 5) (1 / 2) (1 / 2) 1 (\<lambda>i. 0) = Inr NaN"
  by (rule snowball_option_at_expiry) simp_all

text \<open>
  Claim C4, amended: a call with a parameter that is not positive does not raise
  \<open>InvalidParameter\<close>; what it does is decided by the operation that meets the parameter.
  On calls whose \<^verbatim>\<open>sigma ** 2\<close> is a double (\<open>sigma\<^sup>2 \<le> float_max\<close>): \<open>X = 0\<close> raises
  \<open>ZeroDivisionError\<close> (whatever \<open>sigma\<close>); with \<open>X \<noteq> 0\<close>, \<open>n < 0\<close> raises \<open>ValueError\<close> (the
  allocation of the arrays), and \<open>sigma < 0\<close> with \<open>0 \<le> T\<close> and \<open>1 \<le> n \<le> 10\<^sup>6\<close> raises
  \<open>ValueError\<close> (the scale of the first draw has its sign bit set); but \<open>n = 0\<close> returns
  \<open>nan\<close> (the mean of an empty array), and \<open>T = 0\<close> with \<open>S = X\<close>, \<open>0 \<le> sigma\<close> and
  \<open>1 \<le> n \<le> 10\<^sup>6\<close> returns \<open>nan\<close>.
\<close>

theorem no_parameter_guard:
  "(X = 0 \<longrightarrow> snowball_option S X T r q sigma k p n z = Inl ZeroDivisionError)
   \<and> (X \<noteq> 0 \<and> sigma\<^sup>2 \<le> float_max \<and> n < 0 \<longrightarrow>
        snowball_option S X T r q sigma k p n z = Inl ValueError)
   \<and> (X \<noteq> 0 \<and> sigma\<^sup>2 \<le> float_max \<and> sigma < 0 \<and> 0 \<le> T \<and> 1 \<le> n \<and> n \<le> 10 ^ 6 \<longrightarrow>
        snowball_option S X T r q sigma k p n z = Inl ValueError)
   \<and> (X \<noteq> 0 \<and> sigma\<^sup>2 \<le> float_max \<and> n = 0 \<longrightarrow>
        snowball_option S X T r q sigma k p n z = Inr NaN)
   \<and> (X \<noteq> 0 \<and> sigma\<^sup>2 \<le> float_max \<and> 0 \<le> sigma \<and> T = 0 \<and> S = X \<and> 1 \<le> n \<and> n \<le> 10 ^ 6 \<longrightarrow>
        snowball_option S X T r q sigma k p n z = Inr NaN)"
proof (intro conjI impI)
  assume "X = 0"
  then show "snowball_option S X T r q sigma k p n z = Inl ZeroDivisionError"
    by (simp add: snowball_option_zero_strike)
next
  assume "X \<noteq> 0 \<and> sigma\<^sup>2 \<le> float_max \<and> n < 0"
  then show "snowball_option S X T r q sigma k p n z = Inl ValueError"
    by (simp add: snowball_option_negative_size)
next
  assume "X \<noteq> 0 \<and> sigma\<^sup>2 \<le> float_max \<and> sigma < 0 \<and> 0 \<le> T \<and> 1 \<le> n \<and> n \<le> 10 ^ 6"
  then show "snowball_option S X T r q sigma k p n z = Inl ValueError"
    by (intro snowball_option_negative_scale) simp_all
next
  assume "X \<noteq> 0 \<and> sigma\<^sup>2 \<le> float_max \<and> n = 0"
  then show "snowball_option S X T r q sigma k p n z = Inr NaN"
    by (simp add: snowball_option_no_draws)
next
  assume "X \<noteq> 0 \<and> sigma\<^sup>2 \<le> float_max \<and> 0 \<le> sigma \<and> T = 0 \<and> S = X \<and> 1 \<le> n \<and> n \<le> 10 ^ 6"
  then show "snowball_option S X T r q sigma k p n z = Inr NaN"
    using snowball_option_at_expiry [of X n sigma r q k p z] by simp
qed

text \<open>
  One call for each of the five cases, around the benchmark parameters; the third has
  the scale \<open>-0.2 * 0.0\<close>.
\<close>

theorem no_parameter_guard_witness:
  "snowball_option 100 0 1 (1 / 20) 0 (1 / 5) (1 / 2) (1 / 2) 3 (\<lambda>i. 0) = Inl ZeroDivisionError
   \<and> (100::real) \<noteq> 0 \<and> (1 / 5 :: real)\<^sup>2 \<le> float_max \<and> (- 1::int) < 0
   \<and> snowball_option 100 100 1 (1 / 20) 0 (1 / 5) (1 / 2) (1 / 2) (- 1) (\<lambda>i. 0) = Inl ValueError
   \<and> (- (1 / 5) :: real)\<^sup>2 \<le> float_max \<and> (- (1 / 5) :: real) < 0 \<and> (0::real) \<le> 0
   \<and> (1::int) \<le> 3 \<and> (3::int) \<le> 10 ^ 6
   \<and> snowball_option 100 100 0 (1 / 20) 0 (- (1 / 5)) (1 / 2) (1 / 2) 3 (\<lambda>i. 0) = Inl ValueError
   \<and> snowball_option 100 100 1 (1 / 20) 0 (1 / 5) (1 / 2) (1 / 2) 0 (\<lambda>i. 0) = Inr NaN
   \<and> (0::real) \<le> 1 / 5
   \<and> snowball_option 100 100 0 (1 / 20) 0 (1 / 5) (1 / 2) (1 / 2) 3 (\<lambda>i. 0) = Inr NaN"
proof -
  have m: "(1 / 5 :: real)\<^sup>2 \<le> float_max" "(- (1 / 5) :: real)\<^sup>2 \<le> float_max"
    by (simp_all add: float_max_def power2_eq_square)
  show ?thesis
    using m
      no_parameter_guard [of 0 100 1 "1 / 20" 0 "1 / 5" "1 / 2" "1 / 2" 3 "\<lambda>i. 0"]
      no_parameter_guard [of 100 100 1 "1 / 20" 0 "1 / 5" "1 / 2" "1 / 2" "- 1" "\<lambda>i. 0"]
      no_parameter_guard [of 100 100 0 "1 / 20" 0 "- (1 / 5)" "1 / 2" "1 / 2" 3 "\<lambda>i. 0"]
      no_parameter_guard [of 100 100 1 "1 / 20" 0 "1 / 5" "1 / 2" "1 / 2" 0 "\<lambda>i. 0"]
      no_parameter_guard [of 100 100 0 "1 / 20" 0 "1 / 5" "1 / 2" "1 / 2" 3 "\<lambda>i. 0"]
    by simp
qed

text \<open>
  Claim C5, as stated: for \<open>S\<close>, \<open>X\<close>, \<open>T\<close>, \<open>sigma\<close> positive, \<open>1 \<le> n\<close>, every
  realisation of the draws and \<open>p = 0\<close>, the returned price equals the call price. It
  fails on the input of C1 with \<open>p = 0\<close>: the mean is \<open>nan\<close>, \<open>0 * nan\<close> is \<open>nan\<close>, and the
  function returns \<open>nan\<close>, while the call price is a finite number.
\<close>

theorem zero_probability_nan:
  "snowball_option 100 100 365 (1 / 2) 0 1 1 0 1 (\<lambda>i. - 2) = Inr NaN
   \<and> call_price 100 100 365 (1 / 2) 0 1 = Fin (bsm_call_value 100 100 365 (1 / 2) 0 1)
   \<and> snowball_option 100 100 365 (1 / 2) 0 1 1 0 1 (\<lambda>i. - 2)
       \<noteq> Inr (call_price 100 100 365 (1 / 2) 0 1)"
proof -
  have "\<not> draw_ok 365 (1 / 2) 1 1 (\<lambda>i. - 2) 0"
    by (simp add: draw_ok_def variate_def draw_mean_def draw_sd_def)
  then have "\<not> (\<forall>i<nat 1. draw_ok 365 (1 / 2) 1 1 (\<lambda>i. - 2) i)"
    by simp
  then have "snowball_option 100 100 365 (1 / 2) 0 1 1 0 1 (\<lambda>i. - 2) = Inr NaN"
    by (subst snowball_option_cases) simp_all
  moreover have "call_price 100 100 365 (1 / 2) 0 1 = Fin (bsm_call_value 100 100 365 (1 / 2) 0 1)"
    by (rule call_price_closed_form) simp_all
  ultimately show ?thesis
    by simp
qed

text \<open>
  Claim C5, amended: on the same domain and with \<open>p = 0\<close>, the returned price is the
  call price when \<open>0 \<le> 1 + k * r_i\<close> for every draw (in particular when \<open>k = 0\<close>), for
  any \<open>n\<close>; it is \<open>nan\<close> otherwise.
\<close>

theorem zero_probability_price:
  assumes "0 < S" "0 < X" "0 < T" "0 < sigma" "1 \<le> n"
  shows "snowball_option S X T r q sigma k 0 n z =
    Inr (if \<forall>i<nat n. 0 \<le> 1 + k * variate T r sigma z i
         then call_price S X T r q sigma else NaN)"
  unfolding snowball_option_cases [OF assms] call_price_closed_form [OF assms(1-4)]
  by (simp add: draw_ok_def)

text \<open>
  The benchmark parameters with \<open>k = 1/2\<close>, three draws, the generator returning 0.
\<close>

theorem zero_probability_price_witness:
  "(0::real) < 100 \<and> (0::real) < 100 \<and> (0::real) < 1 \<and> (0::real) < 1 / 5 \<and> (1::int) \<le> 3
   \<and> 0 \<le> 1 + 1 / 2 * variate 1 (1 / 20) (1 / 5) (\<lambda>i. 0) 0
   \<and> 0 \<le> 1 + 1 / 2 * variate 1 (1 / 20) (1 / 5) (\<lambda>i. 0) 1
   \<and> 0 \<le> 1 + 1 / 2 * variate 1 (1 / 20) (1 / 5) (\<lambda>i. 0) 2
   \<and> snowball_option 100 100 1 (1 / 20) 0 (1 / 5) (1 / 2) 0 3 (\<lambda>i. 0)
       = Inr (call_price 100 100 1 (1 / 20) 0 (1 / 5))"
proof -
  have h: "(0::real) < 100" "(0::real) < 1" "(0::real) < 1 / 5" "(1::int) \<le> 3"
    by simp_all
  have ok: "0 \<le> 1 + 1 / 2 * variate 1 (1 / 20) (1 / 5) (\<lambda>i. 0) i" for i
    by (simp add: variate_def draw_mean_def draw_sd_def power2_eq_square)
  have "snowball_option 100 100 1 (1 / 20) 0 (1 / 5) (1 / 2) 0 3 (\<lambda>i. 0)
       = Inr (call_price 100 100 1 (1 / 20) 0 (1 / 5))"
    by (subst zero_probability_price [OF h(1) h(1) h(2) h(3) h(4)]) (simp only: ok simp_thms if_True)
  then show ?thesis
    using h ok by blast
qed

text \<open>
  Claim C6, as stated: for \<open>S\<close>, \<open>X\<close>, \<open>T\<close>, \<open>sigma\<close> positive, \<open>1 \<le> n\<close> and every
  realisation of the variates, each value is a finite number, the argument \<open>S_i / X\<close> of
  the logarithm being positive, so that no \<open>nan\<close> reaches the mean or the returned
  price. It fails with \<open>S = X = 100\<close>, \<open>T = 365\<close>, \<open>r = 1/2\<close>, \<open>q = 0\<close>, \<open>sigma = 1\<close>,
  \<open>k = 1\<close>, \<open>p = 1/2\<close> and two draws of standard normal variates \<open>0\<close> and \<open>-2\<close>: the second
  spot is \<open>100 * (1 + 1 * (-2)) = -100\<close>, the logarithm of \<open>-100 / 100\<close> is \<open>nan\<close>, the
  second value is \<open>nan\<close>, and so is the returned price.
\<close>

theorem value_nan:
  "simulate 100 100 365 (1 / 2) 0 1 1 2 (\<lambda>i. if i = 0 then 0 else - 2)
     = Inr \<lparr>prices = [Fin 100, Fin (- 100)],
            values = [Fin (bsm_call_value 100 100 365 (1 / 2) 0 1), NaN]\<rparr>
   \<and> flog (fdiv (Fin (- 100)) (Fin 100)) = NaN
   \<and> snowball_option 100 100 365 (1 / 2) 0 1 1 (1 / 2) 2 (\<lambda>i. if i = 0 then 0 else - 2) = Inr NaN"
proof -
  let ?z = "\<lambda>i::nat. if i = 0 then 0 else - (2::real)"
  have s: "spot 100 365 (1 / 2) 1 1 ?z 0 = 100" "spot 100 365 (1 / 2) 1 1 ?z (Suc 0) = - 100"
    by (simp_all add: spot_def variate_def draw_mean_def draw_sd_def)
  have u: "[0 ..< 2] = [0, Suc 0]"
    by (simp add: upt_rec)
  have "simulate 100 100 365 (1 / 2) 0 1 1 2 ?z
     = Inr \<lparr>prices = [Fin 100, Fin (- 100)],
            values = [Fin (bsm_call_value 100 100 365 (1 / 2) 0 1), NaN]\<rparr>"
    by (simp add: simulate_eq u s bsm_formula_neg bsm_formula_pos tau_0)
  moreover have "\<not> draw_ok 365 (1 / 2) 1 1 ?z 1"
    by (simp add: draw_ok_def variate_def draw_mean_def draw_sd_def)
  then have "\<not> (\<forall>i<nat 2. draw_ok 365 (1 / 2) 1 1 ?z i)"
    by (intro notI) simp
  then have "snowball_option 100 100 365 (1 / 2) 0 1 1 (1 / 2) 2 ?z = Inr NaN"
    by (subst snowball_option_cases) simp_all
  ultimately show ?thesis
    by simp
qed

text \<open>
  Claim C6, amended: on the same domain, the argument \<open>S_i / X\<close> of the logarithm is
  positive exactly when \<open>0 < 1 + k * r_i\<close>; the value of draw \<open>i\<close> is a finite number
  exactly when \<open>0 \<le> 1 + k * r_i\<close> and \<open>nan\<close> exactly when \<open>1 + k * r_i < 0\<close>; the returned
  price is finite exactly when \<open>0 \<le> 1 + k * r_i\<close> for every draw, and \<open>nan\<close> as soon as
  one draw has \<open>1 + k * r_i < 0\<close>.
\<close>

theorem values_finite_iff:
  assumes "0 < S" "0 < X" "0 < T" "0 < sigma" "1 \<le> n"
  shows "\<exists>a v. simulate S X T r q sigma k n z = Inr a
    \<and> snowball_option S X T r q sigma k p n z = Inr v
    \<and> (\<forall>i<nat n.
          prices a ! i = Fin (S * (1 + k * variate T r sigma z i))
          \<and> (0 < S * (1 + k * variate T r sigma z i) / X \<longleftrightarrow> 0 < 1 + k * variate T r sigma z i)
          \<and> (isfinite (values a ! i) \<longleftrightarrow> 0 \<le> 1 + k * variate T r sigma z i)
          \<and> (values a ! i = NaN \<longleftrightarrow> 1 + k * variate T r sigma z i < 0))
    \<and> (isfinite v \<longleftrightarrow> (\<forall>i<nat n. 0 \<le> 1 + k * variate T r sigma z i))
    \<and> (v = NaN \<longleftrightarrow> (\<exists>i<nat n. 1 + k * variate T r sigma z i < 0))"
proof -
  let ?a = "\<lparr>prices = map (\<lambda>i. Fin (spot S T r sigma k z i)) [0 ..< nat n],
         values = map (\<lambda>i. bsm_formula (Fin (spot S T r sigma k z i)) X (tau T n i) r q sigma)
                    [0 ..< nat n]\<rparr>"
  let ?v = "if \<forall>i<nat n. draw_ok T r sigma k z i
         then Fin ((1 - p) * bsm_call_value S X T r q sigma
                   + p * ((\<Sum>i<nat n. draw_payoff S X T r q sigma k n z i) / real_of_int n))
         else NaN"
  have n: "0 \<le> n"
    using assms by simp
  have a: "simulate S X T r q sigma k n z = Inr ?a"
    using assms n by (intro simulate_eq)
  have v: "snowball_option S X T r q sigma k p n z = Inr ?v"
    by (rule snowball_option_cases [OF assms])
  have each: "prices ?a ! i = Fin (S * (1 + k * variate T r sigma z i))
          \<and> (0 < S * (1 + k * variate T r sigma z i) / X \<longleftrightarrow> 0 < 1 + k * variate T r sigma z i)
          \<and> (isfinite (values ?a ! i) \<longleftrightarrow> 0 \<le> 1 + k * variate T r sigma z i)
          \<and> (values ?a ! i = NaN \<longleftrightarrow> 1 + k * variate T r sigma z i < 0)"
    if "i < nat n" for i
  proof -
    have i: "int i < n"
      using that by simp
    have "0 < S * (1 + k * variate T r sigma z i) / X \<longleftrightarrow> 0 < 1 + k * variate T r sigma z i"
      using assms by (simp add: zero_less_divide_iff zero_less_mult_iff)
    then show ?thesis
      using that isfinite_bsm_formula [OF assms(1-4) i, of r k z q]
      by (simp add: spot_def)
  qed
  have f: "isfinite ?v \<longleftrightarrow> (\<forall>i<nat n. 0 \<le> 1 + k * variate T r sigma z i)"
    by (simp add: draw_ok_def)
  have g: "?v = NaN \<longleftrightarrow> (\<exists>i<nat n. 1 + k * variate T r sigma z i < 0)"
    by (auto simp: draw_ok_def not_le)
  show ?thesis
    using a v each f g by blast
qed

text \<open>
  The benchmark parameters with \<open>k = 1/2\<close>, \<open>p = 1/4\<close>, three draws, the generator returning 0.
\<close>

theorem values_finite_iff_witness:
  "(0::real) < 100 \<and> (0::real) < 100 \<and> (0::real) < 1 \<and> (0::real) < 1 / 5 \<and> (1::int) \<le> 3
   \<and> (\<exists>a v. simulate 100 100 1 (1 / 20) 0 (1 / 5) (1 / 2) 3 (\<lambda>i. 0) = Inr a
    \<and> snowball_option 100 100 1 (1 / 20) 0 (1 / 5) (1 / 2) (1 / 4) 3 (\<lambda>i. 0) = Inr v
    \<and> prices a ! 2 = Fin (100 * (1 + 1 / 2 * variate 1 (1 / 20) (1 / 5) (\<lambda>i. 0) 2))
    \<and> 0 < 100 * (1 + 1 / 2 * variate 1 (1 / 20) (1 / 5) (\<lambda>i. 0) 2) / 100
    \<and> isfinite (values a ! 0) \<and> isfinite (values a ! 1) \<and> isfinite (values a ! 2)
    \<and> values a ! 2 \<noteq> NaN
    \<and> isfinite v \<and> v \<noteq> NaN)"
proof -
  have h: "(0::real) < 100" "(0::real) < 1" "(0::real) < 1 / 5" "(1::int) \<le> 3"
    by simp_all
  have ok: "0 < 1 + 1 / 2 * variate 1 (1 / 20) (1 / 5) (\<lambda>i. 0) i" for i
    by (simp add: variate_def draw_mean_def draw_sd_def power2_eq_square)
  then have ok': "0 \<le> 1 + 1 / 2 * variate 1 (1 / 20) (1 / 5) (\<lambda>i. 0) i" for i
    by (rule less_imp_le)
  have ok'': "\<not> 1 + 1 / 2 * variate 1 (1 / 20) (1 / 5) (\<lambda>i. 0) i < 0" for i
    using ok' [of i] by simp
  obtain a v where a: "simulate 100 100 1 (1 / 20) 0 (1 / 5) (1 / 2) 3 (\<lambda>i. 0) = Inr a"
    "snowball_option 100 100 1 (1 / 20) 0 (1 / 5) (1 / 2) (1 / 4) 3 (\<lambda>i. 0) = Inr v"
    "\<forall>i<nat 3.
          prices a ! i = Fin (100 * (1 + 1 / 2 * variate 1 (1 / 20) (1 / 5) (\<lambda>i. 0) i))
          \<and> (0 < 100 * (1 + 1 / 2 * variate 1 (1 / 20) (1 / 5) (\<lambda>i. 0) i) / 100
               \<longleftrightarrow> 0 < 1 + 1 / 2 * variate 1 (1 / 20) (1 / 5) (\<lambda>i. 0) i)
          \<and> (isfinite (values a ! i) \<longleftrightarrow> 0 \<le> 1 + 1 / 2 * variate 1 (1 / 20) (1 / 5) (\<lambda>i. 0) i)
          \<and> (values a ! i = NaN \<longleftrightarrow> 1 + 1 / 2 * variate 1 (1 / 20) (1 / 5) (\<lambda>i. 0) i < 0)"
    "isfinite v \<longleftrightarrow> (\<forall>i<nat 3. 0 \<le> 1 + 1 / 2 * variate 1 (1 / 20) (1 / 5) (\<lambda>i. 0) i)"
    "v = NaN \<longleftrightarrow> (\<exists>i<nat 3. 1 + 1 / 2 * variate 1 (1 / 20) (1 / 5) (\<lambda>i. 0) i < 0)"
    using values_finite_iff [OF h(1) h(1) h(2) h(3) h(4), of "1 / 20" 0 "1 / 2" "\<lambda>i. 0" "1 / 4"]
    by blast
  have "isfinite v" "v \<noteq> NaN"
    unfolding a(4,5) using ok' ok'' by blast+
  moreover have i: "(0::nat) < nat 3" "(1::nat) < nat 3" "(2::nat) < nat 3"
    by simp_all
  have "prices a ! 2 = Fin (100 * (1 + 1 / 2 * variate 1 (1 / 20) (1 / 5) (\<lambda>i. 0) 2))"
    "0 < 100 * (1 + 1 / 2 * variate 1 (1 / 20) (1 / 5) (\<lambda>i. 0) 2) / 100"
    "isfinite (values a ! 0)" "isfinite (values a ! 1)" "isfinite (values a ! 2)"
    "values a ! 2 \<noteq> NaN"
    using a(3) i ok ok' ok'' by blast+
  ultimately show ?thesis
    using h a(1,2) by blast
qed



text \<open>
  Claim C8. For \<open>S\<close>, \<open>X\<close>, \<open>T\<close>, \<open>sigma\<close> positive, \<open>1 \<le> n\<close> and \<open>k = 0\<close>, the
  returned price is \<open>(1 - p) * call_price + p * mean values\<close>: every stored value is the
  Black-Scholes-Merton value of the unchanged spot at the remaining maturity of its draw, it
  is not negative, and the floor at zero leaves the array of values as it is.
\<close>

theorem no_snowball_price:
  assumes "0 < S" "0 < X" "0 < T" "0 < sigma" "1 \<le> n"
  shows "snowball_option S X T r q sigma 0 p n z =
      Inr (Fin ((1 - p) * bsm_call_value S X T r q sigma
              + p * ((\<Sum>i<nat n. bsm_call_value S X (tau T n i) r q sigma) / real_of_int n)))
    \<and> (\<exists>a. simulate S X T r q sigma 0 n z = Inr a
          \<and> values a = map (\<lambda>i. Fin (bsm_call_value S X (tau T n i) r q sigma)) [0 ..< nat n]
          \<and> payoffs 0 a = values a)
    \<and> (\<forall>i<nat n. 0 \<le> bsm_call_value S X (tau T n i) r q sigma)"
proof (intro conjI allI impI)
  show "snowball_option S X T r q sigma 0 p n z =
      Inr (Fin ((1 - p) * bsm_call_value S X T r q sigma
              + p * ((\<Sum>i<nat n. bsm_call_value S X (tau T n i) r q sigma) / real_of_int n)))"
    by (rule snowball_option_k0 [OF assms])
next
  fix i
  assume "i < nat n"
  then show "0 \<le> bsm_call_value S X (tau T n i) r q sigma"
    using assms by (intro bsm_call_value_nonneg tau_pos) auto
next
  let ?V = "\<lambda>i. Fin (bsm_call_value S X (tau T n i) r q sigma)"
  have v: "map (\<lambda>i. bsm_formula (Fin S) X (tau T n i) r q sigma) [0 ..< nat n] = map ?V [0 ..< nat n]"
    using assms by (intro map_cong refl bsm_formula_pos tau_pos) auto
  have p: "map (\<lambda>i. payoff 0 (Fin S) (?V i)) [0 ..< nat n] = map ?V [0 ..< nat n]"
  proof (intro map_cong refl)
    fix i
    assume "i \<in> set [0 ..< nat n]"
    then have "0 \<le> bsm_call_value S X (tau T n i) r q sigma"
      using assms by (intro bsm_call_value_nonneg tau_pos) auto
    then show "payoff 0 (Fin S) (?V i) = ?V i"
      by simp
  qed
  have "simulate S X T r q sigma 0 n z =
    Inr \<lparr>prices = map (\<lambda>i. Fin S) [0 ..< nat n], values = map ?V [0 ..< nat n]\<rparr>"
    using assms by (simp add: simulate_eq v)
  moreover have "payoffs 0 \<lparr>prices = map (\<lambda>i. Fin S) [0 ..< nat n], values = map ?V [0 ..< nat n]\<rparr>
      = map ?V [0 ..< nat n]"
    by (simp only: payoffs_eq p)
  ultimately show "\<exists>a. simulate S X T r q sigma 0 n z = Inr a
          \<and> values a = map ?V [0 ..< nat n] \<and> payoffs 0 a = values a"
    by simp
qed

text \<open>The benchmark parameters with two draws.\<close>

theorem no_snowball_price_witness:
  "(0::real) < 100 \<and> (0::real) < 100 \<and> (0::real) < 1 \<and> (0::real) < 1 / 5 \<and> (1::int) \<le> 2
    \<and> snowball_option 100 100 1 (1 / 20) 0 (1 / 5) 0 (1 / 2) 2 (\<lambda>i. real i) =
      Inr (Fin ((1 - 1 / 2) * bsm_call_value 100 100 1 (1 / 20) 0 (1 / 5)
              + 1 / 2 * ((\<Sum>i<nat 2. bsm_call_value 100 100 (tau 1 2 i) (1 / 20) 0 (1 / 5))
                         / real_of_int 2)))
    \<and> (\<exists>a. simulate 100 100 1 (1 / 20) 0 (1 / 5) 0 2 (\<lambda>i. real i) = Inr a
          \<and> values a = map (\<lambda>i. Fin (bsm_call_value 100 100 (tau 1 2 i) (1 / 20) 0 (1 / 5)))
                         [0 ..< nat 2]
          \<and> payoffs 0 a = values a)
    \<and> 0 \<le> bsm_call_value 100 100 (tau 1 2 0) (1 / 20) 0 (1 / 5)
    \<and> 0 \<le> bsm_call_value 100 100 (tau 1 2 1) (1 / 20) 0 (1 / 5)"
proof -
  have h: "(0::real) < 100" "(0::real) < 1" "(0::real) < 1 / 5" "(1::int) \<le> 2"
    by simp_all
  have i: "(0::nat) < nat 2" "(1::nat) < nat 2"
    by simp_all
  show ?thesis
    using h i no_snowball_price [OF h(1) h(1) h(2) h(3) h(4), of "1 / 20" 0 "1 / 2" "\<lambda>i. real i"]
    by blast
qed

text \<open>
  Claim C9, as stated: for \<open>S\<close>, \<open>X\<close>, \<open>T\<close>, \<open>sigma\<close> positive, \<open>1 \<le> n\<close> and
  \<open>0 \<le> p \<le> 1\<close>, the returned price lies between \<open>min call_price (max_i payoff_i)\<close> and
  \<open>max call_price (max_i payoff_i)\<close>. The lower bound fails with \<open>S = 100\<close>, \<open>X = 1\<close>,
  \<open>T = 365\<close>, \<open>r = q = 0\<close>, \<open>sigma = 1\<close>, \<open>k = 1\<close>, \<open>p = 1\<close> and two draws of standard
  normal variates \<open>-2/5\<close> and \<open>-3/10\<close>: the variates are \<open>-9/10\<close> and \<open>-8/10\<close>, the payoffs
  10 and 20, the returned price is their mean 15, below the largest payoff 20 and below
  the call price, which is at least 49.
\<close>

theorem price_below_both_bounds:
  "snowball_option 100 1 365 0 0 1 1 1 2 (\<lambda>i. if i = 0 then - 2 / 5 else - 3 / 10) = Inr (Fin 15)
   \<and> (\<exists>a. simulate 100 1 365 0 0 1 1 2 (\<lambda>i. if i = 0 then - 2 / 5 else - 3 / 10) = Inr a
         \<and> payoffs 1 a = [Fin 10, Fin 20])
   \<and> \<not> fle (fminimum (call_price 100 1 365 0 0 1) (fmax_list [Fin 10, Fin 20])) (Fin 15)"
proof -
  let ?z = "\<lambda>i::nat. if i = 0 then - 2 / 5 else - 3 / (10::real)"
  have s: "spot 100 365 0 1 1 ?z 0 = 10" "spot 100 365 0 1 1 ?z (Suc 0) = 20"
    by (simp_all add: spot_def variate_def draw_mean_def draw_sd_def)
  have u: "[0 ..< 2] = [0, Suc 0]"
    by (simp add: upt_rec)
  have t: "0 < tau 365 2 (Suc 0)"
    by (simp add: tau_def)
  have sim: "simulate 100 1 365 0 0 1 1 2 ?z
     = Inr \<lparr>prices = [Fin 10, Fin 20],
            values = [Fin (bsm_call_value 10 1 365 0 0 1),
                      Fin (bsm_call_value 20 1 (tau 365 2 (Suc 0)) 0 0 1)]\<rparr>"
    using t by (simp add: simulate_eq u s bsm_formula_pos tau_0)
  have pay: "payoffs 1 \<lparr>prices = [Fin 10, Fin 20],
            values = [Fin (bsm_call_value 10 1 365 0 0 1),
                      Fin (bsm_call_value 20 1 (tau 365 2 (Suc 0)) 0 0 1)]\<rparr> = [Fin 10, Fin 20]"
    by (simp add: payoffs_def)
  have c: "call_price 100 1 365 0 0 1 = Fin (bsm_call_value 100 1 365 0 0 1)"
    by (rule call_price_closed_form) simp_all
  have opt: "snowball_option 100 1 365 0 0 1 1 1 2 ?z = Inr (Fin 15)"
    by (simp add: snowball_option_def sim pay c fmean_def)
  have "0 \<le> bsm_d1 100 1 365 0 0 1"
    by (simp add: bsm_d1_def)
  then have "Phi 0 \<le> Phi (bsm_d1 100 1 365 0 0 1)"
    by (rule Phi_mono)
  then have "50 \<le> 100 * Phi (bsm_d1 100 1 365 0 0 1)"
    by (simp add: Phi_0)
  moreover have "Phi (bsm_d2 100 1 365 0 0 1) \<le> 1"
    by (rule Phi_le_1)
  ultimately have "49 \<le> bsm_call_value 100 1 365 0 0 1"
    by (simp add: bsm_call_value_def)
  then have "\<not> fle (fminimum (call_price 100 1 365 0 0 1) (fmax_list [Fin 10, Fin 20])) (Fin 15)"
    by (simp add: c)
  then show ?thesis
    using opt sim pay by simp
qed

text \<open>
  Claim C9, amended: on the same domain, when \<open>0 \<le> 1 + k * r_i\<close> for every draw, the
  returned price lies between \<open>min call_price (min_i payoff_i)\<close> and
  \<open>max call_price (max_i payoff_i)\<close>: the lower bound takes the smallest payoff.
\<close>

theorem price_between_bounds:
  assumes "0 < S" "0 < X" "0 < T" "0 < sigma" "1 \<le> n" "0 \<le> p" "p \<le> 1"
    and ok: "\<forall>i<nat n. 0 \<le> 1 + k * variate T r sigma z i"
  shows "\<exists>a v. simulate S X T r q sigma k n z = Inr a
    \<and> snowball_option S X T r q sigma k p n z = Inr v
    \<and> fle (fminimum (call_price S X T r q sigma) (fmin_list (payoffs k a))) v
    \<and> fle v (fmaximum (call_price S X T r q sigma) (fmax_list (payoffs k a)))"
proof -
  let ?a = "\<lparr>prices = map (\<lambda>i. Fin (spot S T r sigma k z i)) [0 ..< nat n],
         values = map (\<lambda>i. bsm_formula (Fin (spot S T r sigma k z i)) X (tau T n i) r q sigma)
                    [0 ..< nat n]\<rparr>"
  let ?f = "draw_payoff S X T r q sigma k n z"
  let ?c = "bsm_call_value S X T r q sigma"
  let ?m = "(\<Sum>i<nat n. ?f i) / real_of_int n"
  have n: "0 \<le> n" "0 < nat n" "[0 ..< nat n] \<noteq> []" "real_of_int n = real (nat n)"
    using assms by simp_all
  have ok': "\<forall>i<nat n. draw_ok T r sigma k z i"
    using ok by (simp add: draw_ok_def)
  have a: "simulate S X T r q sigma k n z = Inr ?a"
    using assms n by (intro simulate_eq)
  have v: "snowball_option S X T r q sigma k p n z = Inr (Fin ((1 - p) * ?c + p * ?m))"
    using ok' by (simp add: snowball_option_cases [OF assms(1-5)])
  have pay: "payoffs k ?a = map (\<lambda>i. Fin (?f i)) [0 ..< nat n]"
    unfolding payoffs_eq by (rule payoffs_ok [OF assms(1-5) ok'])
  obtain lo where lo: "fmin_list (payoffs k ?a) = Fin lo" "\<forall>i\<in>set [0 ..< nat n]. lo \<le> ?f i"
    unfolding pay using fmin_list_Fin [OF n(3), of ?f] by blast
  obtain hi where hi: "fmax_list (payoffs k ?a) = Fin hi" "\<forall>i\<in>set [0 ..< nat n]. ?f i \<le> hi"
    unfolding pay using fmax_list_Fin [OF n(3), of ?f] by blast
  have "lo \<le> (\<Sum>i<nat n. ?f i) / real (nat n)"
    using lo(2) hi(2) by (intro mean_between(1) [where m = lo and M = hi] n(2)) auto
  moreover have "(\<Sum>i<nat n. ?f i) / real (nat n) \<le> hi"
    using lo(2) hi(2) by (intro mean_between(2) [where m = lo and M = hi] n(2)) auto
  ultimately have m: "lo \<le> ?m" "?m \<le> hi"
    by (simp_all only: n(4))
  have "min ?c lo \<le> (1 - p) * ?c + p * ?m" "(1 - p) * ?c + p * ?m \<le> max ?c hi"
    using assms(6,7) m by (intro convex_between; simp)+
  then have "fle (fminimum (call_price S X T r q sigma) (fmin_list (payoffs k ?a)))
      (Fin ((1 - p) * ?c + p * ?m))"
    "fle (Fin ((1 - p) * ?c + p * ?m))
      (fmaximum (call_price S X T r q sigma) (fmax_list (payoffs k ?a)))"
    by (simp_all add: call_price_closed_form [OF assms(1-4)] lo(1) hi(1))
  then show ?thesis
    using a v by blast
qed

text \<open>
  The benchmark parameters with \<open>k = 1/2\<close>, \<open>p = 1/4\<close>, three draws, the generator returning 0.
\<close>

theorem price_between_bounds_witness:
  "(0::real) < 100 \<and> (0::real) < 100 \<and> (0::real) < 1 \<and> (0::real) < 1 / 5 \<and> (1::int) \<le> 3
   \<and> (0::real) \<le> 1 / 4 \<and> (1 / 4 :: real) \<le> 1
   \<and> 0 \<le> 1 + 1 / 2 * variate 1 (1 / 20) (1 / 5) (\<lambda>i. 0) 0
   \<and> 0 \<le> 1 + 1 / 2 * variate 1 (1 / 20) (1 / 5) (\<lambda>i. 0) 1
   \<and> 0 \<le> 1 + 1 / 2 * variate 1 (1 / 20) (1 / 5) (\<lambda>i. 0) 2
   \<and> (\<exists>a v. simulate 100 100 1 (1 / 20) 0 (1 / 5) (1 / 2) 3 (\<lambda>i. 0) = Inr a
    \<and> snowball_option 100 100 1 (1 / 20) 0 (1 / 5) (1 / 2) (1 / 4) 3 (\<lambda>i. 0) = Inr v
    \<and> fle (fminimum (call_price 100 100 1 (1 / 20) 0 (1 / 5)) (fmin_list (payoffs (1 / 2) a))) v
    \<and> fle v (fmaximum (call_price 100 100 1 (1 / 20) 0 (1 / 5)) (fmax_list (payoffs (1 / 2) a))))"
proof -
  have h: "(0::real) < 100" "(0::real) < 1" "(0::real) < 1 / 5" "(1::int) \<le> 3"
    "(0::real) \<le> 1 / 4" "(1 / 4 :: real) \<le> 1"
    by simp_all
  have ok: "0 \<le> 1 + 1 / 2 * variate 1 (1 / 20) (1 / 5) (\<lambda>i. 0) i" for i
    by (simp add: variate_def draw_mean_def draw_sd_def power2_eq_square)
  then have all: "\<forall>i<nat 3. 0 \<le> 1 + 1 / 2 * variate 1 (1 / 20) (1 / 5) (\<lambda>i. 0) i"
    by blast
  show ?thesis
    using h ok price_between_bounds [OF h(1) h(1) h(2) h(3) h(4) h(5) h(6) all, where q = 0]
    by blast
qed

text \<open>
  Claim C10. For \<open>S\<close>, \<open>X\<close>, \<open>T\<close>, \<open>sigma\<close> positive, \<open>1 \<le> n\<close> and \<open>k = 0\<close>, the
  returned price does not depend on the variates drawn: two runs on the same parameters
  with any two sequences of variates return the same price.
\<close>

theorem no_snowball_independent_of_draws:
  assumes "0 < S" "0 < X" "0 < T" "0 < sigma" "1 \<le> n"
  shows "snowball_option S X T r q sigma 0 p n z = snowball_option S X T r q sigma 0 p n z'"
  by (simp only: snowball_option_k0 [OF assms])

text \<open>Two draws at the benchmark parameters, under two different generators.\<close>

theorem no_snowball_independent_of_draws_witness:
  "(0::real) < 100 \<and> (0::real) < 100 \<and> (0::real) < 1 \<and> (0::real) < 1 / 5 \<and> (1::int) \<le> 2
    \<and> snowball_option 100 100 1 (1 / 20) 0 (1 / 5) 0 (1 / 2) 2 (\<lambda>i. 0)
      = snowball_option 100 100 1 (1 / 20) 0 (1 / 5) 0 (1 / 2) 2 (\<lambda>i. if i = 0 then - 3 else 2)"
proof -
  have h: "(0::real) < 100" "(0::real) < 1" "(0::real) < 1 / 5" "(1::int) \<le> 2"
    by simp_all
  show ?thesis
    using h no_snowball_independent_of_draws [OF h(1) h(1) h(2) h(3) h(4),
        of "1 / 20" 0 "1 / 2" "\<lambda>i. 0" "\<lambda>i. if i = 0 then - 3 else 2"]
    by blast
qed

end
